theory Spec2Isabelle
  imports Complex_Main "HOL-Library.AList" "HOL-Library.Sublist"
begin

section \<open>The host file system\<close>

text \<open>
  The program \<^verbatim>\<open>bin/workspace-cursorrules-symlink.js\<close> is a sequence of synchronous
  calls to Node's \<^verbatim>\<open>fs\<close> module. The file system is modelled as a finite tree. A path
  is the list of its segments below the file-system root (\<^verbatim>\<open>/home/u/ws\<close> is
  \<open>[''home'', ''u'', ''ws'']\<close>); every path the program handles is absolute, since it
  is built from \<^verbatim>\<open>process.cwd()\<close>. A symbolic link stores the absolute path it points
  to. A file carries its content and two permission bits, the right to read it and the right
  to write it. A directory carries two permission bits, the right to list it and the right
  to add or remove entries; its entries are an association list in the order the host lists
  them, the first entry of a name being the one that counts.
\<close>

type_synonym path = "string list"

datatype errno = ENOENT | ENOTDIR | EISDIR | EEXIST | EACCES | ELOOP | TypeError

datatype node =
    File bool bool string
  | Symlink path
  | Dir bool bool "(string \<times> node) list"

datatype ftype = RegularFile | Directory | SymbolicLink

fun ftype_of :: "node \<Rightarrow> ftype" where
  "ftype_of (File _ _ _) = RegularFile"
| "ftype_of (Symlink _) = SymbolicLink"
| "ftype_of (Dir _ _ _) = Directory"

text \<open>\<open>get\<close> reads the tree at a path without following any symbolic link.\<close>

fun get :: "node \<Rightarrow> path \<Rightarrow> node option" where
  "get nd [] = Some nd"
| "get (Dir r w es) (c # cs) = (case map_of es c of None \<Rightarrow> None | Some ch \<Rightarrow> get ch cs)"
| "get (File _ _ _) (c # cs) = None"
| "get (Symlink _) (c # cs) = None"

text \<open>
  \<open>put p new\<close> stores \<open>new\<close> as the entry at \<open>p\<close> (replacing it, or appending a new
  entry to the parent directory); \<open>del p\<close> removes the entry at \<open>p\<close>. Both leave the
  tree as it is when the parent of \<open>p\<close> is not a directory of the tree.
\<close>

fun put :: "path \<Rightarrow> node \<Rightarrow> node \<Rightarrow> node" where
  "put [] new nd = new"
| "put (c # cs) new (Dir r w es) =
     (case map_of es c of
        Some ch \<Rightarrow> Dir r w (AList.update c (put cs new ch) es)
      | None \<Rightarrow> if cs = [] then Dir r w (AList.update c new es) else Dir r w es)"
| "put (c # cs) new (File r w s) = File r w s"
| "put (c # cs) new (Symlink t) = Symlink t"

fun del :: "path \<Rightarrow> node \<Rightarrow> node" where
  "del [] nd = nd"
| "del (c # cs) (Dir r w es) =
     (if cs = [] then Dir r w (AList.delete c es)
      else (case map_of es c of
              Some ch \<Rightarrow> Dir r w (AList.update c (del cs ch) es)
            | None \<Rightarrow> Dir r w es))"
| "del (c # cs) (File r w s) = File r w s"
| "del (c # cs) (Symlink t) = Symlink t"

text \<open>
  Path resolution, as the host does it for every call that takes a path: walk the segments
  from the root; a segment that names a symbolic link restarts the walk at the link's target,
  and the host gives up with \<open>ELOOP\<close> after \<open>SYMLOOP_MAX\<close> links. The result is the real
  (link-free) path. With \<open>creat\<close> the last segment may be absent (\<^verbatim>\<open>open\<close> with
  \<^verbatim>\<open>O_CREAT\<close>, which \<^verbatim>\<open>writeFileSync\<close> uses).
\<close>

definition SYMLOOP_MAX :: nat where
  "SYMLOOP_MAX = 40"

fun namei :: "nat \<Rightarrow> bool \<Rightarrow> node \<Rightarrow> path \<Rightarrow> path \<Rightarrow> errno + path" where
  "namei n creat fs cur [] = Inr cur"
| "namei n creat fs cur (c # cs) =
     (case get fs cur of
        None \<Rightarrow> Inl ENOENT
      | Some (File _ _ _) \<Rightarrow> Inl ENOTDIR
      | Some (Symlink _) \<Rightarrow> Inl ENOTDIR
      | Some (Dir r w es) \<Rightarrow>
          (case map_of es c of
             None \<Rightarrow> if creat \<and> cs = [] then Inr (cur @ [c]) else Inl ENOENT
           | Some (Symlink t) \<Rightarrow>
               (case n of 0 \<Rightarrow> Inl ELOOP | Suc m \<Rightarrow> namei m creat fs [] (t @ cs))
           | Some (File _ _ _) \<Rightarrow> namei n creat fs (cur @ [c]) cs
           | Some (Dir _ _ _) \<Rightarrow> namei n creat fs (cur @ [c]) cs))"

definition realpath :: "node \<Rightarrow> path \<Rightarrow> errno + path" where
  "realpath fs p = namei SYMLOOP_MAX False fs [] p"

subsection \<open>The calls of Node's \<^verbatim>\<open>fs\<close> module that the program makes\<close>

definition existsSync :: "node \<Rightarrow> path \<Rightarrow> bool" where
  "existsSync fs p = (case realpath fs p of Inr _ \<Rightarrow> True | Inl _ \<Rightarrow> False)"

definition statSync :: "node \<Rightarrow> path \<Rightarrow> errno + ftype" where
  "statSync fs p =
     (case realpath fs p of
        Inl e \<Rightarrow> Inl e
      | Inr rp \<Rightarrow> (case get fs rp of None \<Rightarrow> Inl ENOENT | Some nd \<Rightarrow> Inr (ftype_of nd)))"

text \<open>
  \<open>lookup_entry\<close> finds the directory entry a path names, without following a link in the
  last segment: the real path of the entry and the node there, if any. The calls that act on
  an entry itself (\<^verbatim>\<open>unlink\<close>, \<^verbatim>\<open>symlink\<close>, \<^verbatim>\<open>mkdir\<close>, \<^verbatim>\<open>readlink\<close>) start with it.
\<close>

definition lookup_entry :: "node \<Rightarrow> path \<Rightarrow> errno + (bool \<times> path \<times> node option)" where
  "lookup_entry fs p =
     (if p = [] then Inl EEXIST
      else case realpath fs (butlast p) of
        Inl e \<Rightarrow> Inl e
      | Inr rpar \<Rightarrow>
          (case get fs rpar of
             Some (Dir r w es) \<Rightarrow> Inr (w, rpar @ [last p], map_of es (last p))
           | _ \<Rightarrow> Inl ENOTDIR))"

definition readlinkSync :: "node \<Rightarrow> path \<Rightarrow> errno + path" where
  "readlinkSync fs p =
     (case lookup_entry fs p of
        Inl e \<Rightarrow> Inl e
      | Inr (w, rp, None) \<Rightarrow> Inl ENOENT
      | Inr (w, rp, Some (Symlink t)) \<Rightarrow> Inr t
      | Inr (w, rp, Some _) \<Rightarrow> Inl ENOTDIR)"

text \<open>
  What \<^verbatim>\<open>lstat\<close> tells about an entry: its type, the target of a link, the permissions of
  a file or a directory.
\<close>

datatype shape = SFile bool bool | SLink path | SDir bool bool

fun shape_of :: "node \<Rightarrow> shape" where
  "shape_of (File r w _) = SFile r w"
| "shape_of (Symlink t) = SLink t"
| "shape_of (Dir r w _) = SDir r w"

definition lstatSync :: "node \<Rightarrow> path \<Rightarrow> errno + shape" where
  "lstatSync fs p =
     (if p = [] then Inr (shape_of fs)
      else case lookup_entry fs p of
        Inl e \<Rightarrow> Inl e
      | Inr (w, rp, None) \<Rightarrow> Inl ENOENT
      | Inr (w, rp, Some nd) \<Rightarrow> Inr (shape_of nd))"

datatype dirent = Dirent (dirent_name: string) (dirent_type: ftype)

definition isDirectory :: "dirent \<Rightarrow> bool" where
  "isDirectory d = (dirent_type d = Directory)"

text \<open>
  \<^verbatim>\<open>readdirSync(p, { withFileTypes: true })\<close>: the type of an entry is the type of the
  entry itself, so a symbolic link to a directory is listed as a symbolic link.
\<close>

definition readdirSync :: "node \<Rightarrow> path \<Rightarrow> errno + dirent list" where
  "readdirSync fs p =
     (case realpath fs p of
        Inl e \<Rightarrow> Inl e
      | Inr rp \<Rightarrow>
          (case get fs rp of
             Some (Dir r w es) \<Rightarrow>
               if r then Inr (map (\<lambda>(n, nd). Dirent n (ftype_of nd)) (AList.clearjunk es))
               else Inl EACCES
           | Some _ \<Rightarrow> Inl ENOTDIR
           | None \<Rightarrow> Inl ENOENT))"

definition readFileSync :: "node \<Rightarrow> path \<Rightarrow> errno + string" where
  "readFileSync fs p =
     (case realpath fs p of
        Inl e \<Rightarrow> Inl e
      | Inr rp \<Rightarrow>
          (case get fs rp of
             Some (File r w s) \<Rightarrow> if r then Inr s else Inl EACCES
           | Some _ \<Rightarrow> Inl EISDIR
           | None \<Rightarrow> Inl ENOENT))"

text \<open>
  The calls that change the tree return the error thrown, if any, and the tree they leave.
  \<open>fs_mkdir\<close> is one \<^verbatim>\<open>mkdir\<close>; \<open>fs_mkdirp\<close> is \<^verbatim>\<open>mkdirSync(p, { recursive: true })\<close>,
  which creates the missing directories from the top and accepts the ones that exist; the
  directories it made before an error stay.
\<close>

definition fs_mkdir :: "node \<Rightarrow> path \<Rightarrow> errno option \<times> node" where
  "fs_mkdir fs p =
     (case lookup_entry fs p of
        Inl e \<Rightarrow> (Some e, fs)
      | Inr (w, rp, Some _) \<Rightarrow> (Some EEXIST, fs)
      | Inr (w, rp, None) \<Rightarrow>
          if w then (None, put rp (Dir True True []) fs) else (Some EACCES, fs))"

fun fs_mkdirp :: "node \<Rightarrow> path \<Rightarrow> path \<Rightarrow> errno option \<times> node" where
  "fs_mkdirp fs pre [] = (None, fs)"
| "fs_mkdirp fs pre (c # cs) =
     (case statSync fs (pre @ [c]) of
        Inr Directory \<Rightarrow> fs_mkdirp fs (pre @ [c]) cs
      | Inr RegularFile \<Rightarrow> (Some (if cs = [] then EEXIST else ENOTDIR), fs)
      | Inr SymbolicLink \<Rightarrow> (Some (if cs = [] then EEXIST else ENOTDIR), fs)
      | Inl _ \<Rightarrow>
          (case fs_mkdir fs (pre @ [c]) of
             (Some e, fs') \<Rightarrow> (Some e, fs')
           | (None, fs') \<Rightarrow> fs_mkdirp fs' (pre @ [c]) cs))"

definition fs_unlink :: "node \<Rightarrow> path \<Rightarrow> errno option \<times> node" where
  "fs_unlink fs p =
     (case lookup_entry fs p of
        Inl e \<Rightarrow> (Some e, fs)
      | Inr (w, rp, None) \<Rightarrow> (Some ENOENT, fs)
      | Inr (w, rp, Some (Dir _ _ _)) \<Rightarrow> (Some EISDIR, fs)
      | Inr (w, rp, Some _) \<Rightarrow> if w then (None, del rp fs) else (Some EACCES, fs))"

definition fs_symlink :: "node \<Rightarrow> path \<Rightarrow> path \<Rightarrow> errno option \<times> node" where
  "fs_symlink fs target p =
     (case lookup_entry fs p of
        Inl e \<Rightarrow> (Some e, fs)
      | Inr (w, rp, Some _) \<Rightarrow> (Some EEXIST, fs)
      | Inr (w, rp, None) \<Rightarrow>
          if w then (None, put rp (Symlink target) fs) else (Some EACCES, fs))"

definition fs_writeFile :: "node \<Rightarrow> path \<Rightarrow> string \<Rightarrow> errno option \<times> node" where
  "fs_writeFile fs p data =
     (case namei SYMLOOP_MAX True fs [] p of
        Inl e \<Rightarrow> (Some e, fs)
      | Inr rp \<Rightarrow>
          (case get fs rp of
             Some (File r w _) \<Rightarrow>
               if w then (None, put rp (File r w data) fs) else (Some EACCES, fs)
           | Some _ \<Rightarrow> (Some EISDIR, fs)
           | None \<Rightarrow>
               (case get fs (butlast rp) of
                  Some (Dir r w es) \<Rightarrow>
                    if w then (None, put rp (File True True data) fs) else (Some EACCES, fs)
                | _ \<Rightarrow> (Some ENOTDIR, fs))))"

section \<open>The JavaScript run time\<close>

text \<open>
  \<^verbatim>\<open>JSON.parse\<close>, \<^verbatim>\<open>JSON.stringify\<close> and \<^verbatim>\<open>String.prototype.trim\<close> belong to the
  run time, not to the program: they are parameters of the model. \<open>JSON_parse\<close> returns
  \<open>None\<close> where \<^verbatim>\<open>JSON.parse\<close> throws a \<^verbatim>\<open>SyntaxError\<close>.
\<close>

datatype json =
    JNull
  | JBool bool
  | JNumber real
  | JString string
  | JArray "json list"
  | JObject "(string \<times> json) list"

record runtime =
  JSON_parse :: "string \<Rightarrow> json option"
  JSON_stringify :: "json \<Rightarrow> string"
  trim :: "string \<Rightarrow> string"

text \<open>
  \<open>getProperty v k\<close> is the expression \<^verbatim>\<open>v[k]\<close> for a key \<open>k\<close> that is neither an array
  index nor the name of a built-in property: \<open>None\<close> is \<^verbatim>\<open>undefined\<close>, and reading a
  property of \<^verbatim>\<open>null\<close> throws a \<^verbatim>\<open>TypeError\<close>.
\<close>

fun getProperty :: "json \<Rightarrow> string \<Rightarrow> errno + json option" where
  "getProperty JNull k = Inl TypeError"
| "getProperty (JObject kvs) k = Inr (map_of kvs k)"
| "getProperty (JBool _) k = Inr None"
| "getProperty (JNumber _) k = Inr None"
| "getProperty (JString _) k = Inr None"
| "getProperty (JArray _) k = Inr None"

fun truthy :: "json option \<Rightarrow> bool" where
  "truthy None = False"
| "truthy (Some JNull) = False"
| "truthy (Some (JBool b)) = b"
| "truthy (Some (JNumber x)) = (x \<noteq> 0)"
| "truthy (Some (JString s)) = (s \<noteq> [])"
| "truthy (Some (JArray _)) = True"
| "truthy (Some (JObject _)) = True"

fun decimal :: "nat \<Rightarrow> string" where
  "decimal n =
     (if n < 10 then [''0123456789'' ! n]
      else decimal (n div 10) @ [''0123456789'' ! (n mod 10)])"

text \<open>
  The own enumerable properties that the spread \<^verbatim>\<open>{ ...v }\<close> copies: the members of an
  object, the elements of an array and the characters of a string under their indices,
  nothing for a number, a boolean or \<^verbatim>\<open>null\<close>.
\<close>

fun ownProperties :: "json \<Rightarrow> (string \<times> json) list" where
  "ownProperties (JObject kvs) = kvs"
| "ownProperties (JArray xs) = map (\<lambda>i. (decimal i, xs ! i)) [0..<length xs]"
| "ownProperties (JString s) = map (\<lambda>i. (decimal i, JString [s ! i])) [0..<length s]"
| "ownProperties JNull = []"
| "ownProperties (JBool _) = []"
| "ownProperties (JNumber _) = []"

definition spread :: "json \<Rightarrow> json \<Rightarrow> json" where
  "spread a b = JObject (fold (\<lambda>(k, v). AList.update k v) (ownProperties b) (ownProperties a))"

section \<open>Paths\<close>

text \<open>
  \<^verbatim>\<open>path.join\<close>, \<^verbatim>\<open>path.dirname\<close> and \<^verbatim>\<open>path.relative\<close> on segment lists. The program
  joins an absolute path with names that \<^verbatim>\<open>readdirSync\<close> returned or with a relative path
  below it, so \<open>path_join\<close> has nothing to normalise.
\<close>

definition path_join :: "path \<Rightarrow> path \<Rightarrow> path" where
  "path_join p q = p @ q"

definition path_dirname :: "path \<Rightarrow> path" where
  "path_dirname p = butlast p"

fun path_relative :: "path \<Rightarrow> path \<Rightarrow> path" where
  "path_relative (a # as) (b # bs) =
     (if a = b then path_relative as bs else replicate (Suc (length as)) ''..'' @ b # bs)"
| "path_relative [] to = to"
| "path_relative from [] = replicate (length from) ''..''"

definition startsWith :: "string \<Rightarrow> string \<Rightarrow> bool" where
  "startsWith s pre = (take (length pre) s = pre)"

section \<open>The program\<close>

text \<open>
  The state of a run: the file system, the calls made so far that change it (each with the
  error it threw, if any), and the four counters of the script. A statement maps a state to
  the exception that escaped it, if any, and the state it leaves.
\<close>

datatype fs_call =
    Mkdir path
  | Unlink path
  | SymlinkTo path path
  | WriteFile path string

record state =
  disk :: node
  calls :: "(fs_call \<times> errno option) list"
  totalRuleFiles :: nat
  createdSymlinks :: nat
  skippedSymlinks :: nat
  errorSymlinks :: nat

definition mkdirSync :: "path \<Rightarrow> state \<Rightarrow> errno option \<times> state" where
  "mkdirSync p st =
     (case fs_mkdirp (disk st) [] p of
        (r, d) \<Rightarrow> (r, st\<lparr>disk := d, calls := calls st @ [(Mkdir p, r)]\<rparr>))"

definition unlinkSync :: "path \<Rightarrow> state \<Rightarrow> errno option \<times> state" where
  "unlinkSync p st =
     (case fs_unlink (disk st) p of
        (r, d) \<Rightarrow> (r, st\<lparr>disk := d, calls := calls st @ [(Unlink p, r)]\<rparr>))"

definition symlinkSync :: "path \<Rightarrow> path \<Rightarrow> state \<Rightarrow> errno option \<times> state" where
  "symlinkSync target p st =
     (case fs_symlink (disk st) target p of
        (r, d) \<Rightarrow> (r, st\<lparr>disk := d, calls := calls st @ [(SymlinkTo target p, r)]\<rparr>))"

definition writeFileSync :: "path \<Rightarrow> string \<Rightarrow> state \<Rightarrow> errno option \<times> state" where
  "writeFileSync p data st =
     (case fs_writeFile (disk st) p data of
        (r, d) \<Rightarrow> (r, st\<lparr>disk := d, calls := calls st @ [(WriteFile p data, r)]\<rparr>))"

text \<open>
  \<^verbatim>\<open>xs.forEach(f)\<close> and \<^verbatim>\<open>for (const x of xs)\<close>: the body runs on each element in turn, and
  an exception that escapes the body ends the loop.
\<close>

fun forEach :: "('a \<Rightarrow> 's \<Rightarrow> errno option \<times> 's) \<Rightarrow> 'a list \<Rightarrow> 's \<Rightarrow> errno option \<times> 's" where
  "forEach f [] s = (None, s)"
| "forEach f (x # xs) s =
     (case f x s of
        (Some e, s') \<Rightarrow> (Some e, s')
      | (None, s') \<Rightarrow> forEach f xs s')"

lemma forEach_cong [fundef_cong]:
  "xs = ys \<Longrightarrow> s = t \<Longrightarrow> (\<And>x u. x \<in> set ys \<Longrightarrow> f x u = g x u)
    \<Longrightarrow> forEach f xs s = forEach g ys t"
proof (induction ys arbitrary: xs s t)
  case Nil
  then show ?case by simp
next
  case (Cons y ys)
  from Cons.prems have fy: "f y t = g y t" by simp
  have "forEach f ys u = forEach g ys u" for u
    using Cons.prems by (intro Cons.IH) simp_all
  with Cons.prems fy show ?case by (simp split: prod.splits option.splits)
qed

subsection \<open>\<^verbatim>\<open>getAllFiles\<close>\<close>

text \<open>
  \<^verbatim>\<open>traverse\<close> lists a directory by path, pushes the path of every entry that is not a
  directory and calls itself on the path of every entry that is one. The recursion is
  neither on the structure of a value nor bounded by a counter; it ends because an entry that
  \<^verbatim>\<open>readdirSync\<close> reports as a directory is a real subdirectory of the directory listed,
  which is smaller. The measure is the number of directories below the real path.
\<close>

fun weight :: "node \<Rightarrow> nat" where
  "weight (Dir r w es) = Suc (sum_list (map (\<lambda>(n, nd). weight nd) es))"
| "weight (File _ _ _) = 0"
| "weight (Symlink _) = 0"

definition dir_weight :: "node \<Rightarrow> path \<Rightarrow> nat" where
  "dir_weight fs p =
     (case realpath fs p of
        Inl _ \<Rightarrow> 0
      | Inr rp \<Rightarrow> (case get fs rp of None \<Rightarrow> 0 | Some nd \<Rightarrow> weight nd))"

lemma get_snoc:
  "get nd (p @ [c]) =
     (case get nd p of Some (Dir r w es) \<Rightarrow> map_of es c | _ \<Rightarrow> None)"
  by (induction nd p rule: get.induct) (auto split: option.splits node.splits)

lemma weight_entry: "map_of es c = Some nd \<Longrightarrow> weight nd < weight (Dir r w es)"
proof -
  assume "map_of es c = Some nd"
  then have "(c, nd) \<in> set es" by (rule map_of_SomeD)
  then have "weight nd \<le> sum_list (map (\<lambda>(n, nd). weight nd) es)"
    by (induction es) auto
  then show ?thesis by simp
qed

lemma namei_snoc:
  "namei k False fs cur p = Inr rp \<Longrightarrow> get fs rp = Some (Dir r w es)
    \<Longrightarrow> map_of es c = Some nd \<Longrightarrow> ftype_of nd \<noteq> SymbolicLink
    \<Longrightarrow> namei k False fs cur (p @ [c]) = Inr (rp @ [c])"
proof (induction k "False" fs cur p rule: namei.induct)
  case (1 n fs cur)
  then show ?case by (cases nd) auto
next
  case (2 n fs cur d ds)
  then show ?case
    by (auto split: option.splits node.splits nat.splits)
qed

lemma readdirSync_entry:
  assumes "readdirSync fs p = Inr entries" and "x \<in> set entries"
  obtains rp r w es nd where
    "realpath fs p = Inr rp" and "get fs rp = Some (Dir r w es)"
    and "map_of es (dirent_name x) = Some nd" and "dirent_type x = ftype_of nd"
proof -
  from assms(1) obtain rp r w es where
    rp: "realpath fs p = Inr rp" and g: "get fs rp = Some (Dir r w es)"
    and en: "entries = map (\<lambda>(n, nd). Dirent n (ftype_of nd)) (AList.clearjunk es)"
    by (auto simp: readdirSync_def split: sum.splits option.splits node.splits if_splits)
  from assms(2) en obtain n nd where
    x: "x = Dirent n (ftype_of nd)" and mem: "(n, nd) \<in> set (AList.clearjunk es)"
    by auto
  from mem have "map_of (AList.clearjunk es) n = Some nd"
    by (simp add: map_of_is_SomeI)
  then have "map_of es n = Some nd" by (simp add: map_of_clearjunk)
  with rp g x show ?thesis by (intro that[of rp r w es nd]) simp_all
qed

lemma readdirSync_descend:
  assumes "readdirSync fs p = Inr entries" and "x \<in> set entries" and "isDirectory x"
  shows "dir_weight fs (path_join p [dirent_name x]) < dir_weight fs p"
proof -
  from assms(1,2) obtain rp r w es nd where
    rp: "realpath fs p = Inr rp" and g: "get fs rp = Some (Dir r w es)"
    and m: "map_of es (dirent_name x) = Some nd" and t: "dirent_type x = ftype_of nd"
    by (rule readdirSync_entry)
  from assms(3) t have nl: "ftype_of nd \<noteq> SymbolicLink" by (simp add: isDirectory_def)
  have "realpath fs (p @ [dirent_name x]) = Inr (rp @ [dirent_name x])"
    using rp g m nl unfolding realpath_def by (rule namei_snoc)
  moreover have "get fs (rp @ [dirent_name x]) = Some nd" using g m by (simp add: get_snoc)
  moreover have "weight nd < weight (Dir r w es)" using m by (rule weight_entry)
  ultimately show ?thesis
    using rp g by (simp add: dir_weight_def path_join_def)
qed

function traverse :: "node \<Rightarrow> path \<Rightarrow> path list \<Rightarrow> errno option \<times> path list" where
  "traverse fs currentDir files =
     (case readdirSync fs currentDir of
        Inl e \<Rightarrow> (Some e, files)
      | Inr entries \<Rightarrow>
          forEach
            (\<lambda>entry files.
               let fullPath = path_join currentDir [dirent_name entry]
               in if isDirectory entry then traverse fs fullPath files
                  else (None, files @ [fullPath]))
            entries files)"
  by pat_completeness auto
termination
  by (relation "measure (\<lambda>(fs, p, files). dir_weight fs p)")
     (auto intro: readdirSync_descend)

declare traverse.simps [simp del]

definition getAllFiles :: "node \<Rightarrow> path \<Rightarrow> errno + path list" where
  "getAllFiles fs dir =
     (case traverse fs dir [] of
        (Some e, files) \<Rightarrow> Inl e
      | (None, files) \<Rightarrow> Inr files)"

subsection \<open>The synchronisation (lines 65 to 175 of the script)\<close>

text \<open>
  Lines 151 to 169: create the link unless \<^verbatim>\<open>existsSync\<close> finds the target; an error of
  \<^verbatim>\<open>symlinkSync\<close> is caught and counted.
\<close>

definition linkUnlessPresent :: "path \<Rightarrow> path \<Rightarrow> state \<Rightarrow> state" where
  "linkUnlessPresent ruleFile targetPath st =
     (if \<not> existsSync (disk st) targetPath then
        (case symlinkSync ruleFile targetPath st of
           (None, st') \<Rightarrow> st'\<lparr>createdSymlinks := createdSymlinks st' + 1\<rparr>
         | (Some err, st') \<Rightarrow> st'\<lparr>errorSymlinks := errorSymlinks st' + 1\<rparr>)
      else st\<lparr>skippedSymlinks := skippedSymlinks st + 1\<rparr>)"

text \<open>
  The body of \<^verbatim>\<open>ruleFiles.forEach\<close>, lines 124 to 170. \<^verbatim>\<open>mkdirSync\<close> of the parent
  directory is outside every \<^verbatim>\<open>try\<close>; the \<^verbatim>\<open>catch\<close> of \<^verbatim>\<open>unlinkSync\<close> counts the error
  and returns from the callback.
\<close>

definition syncRuleFile :: "bool \<Rightarrow> path \<Rightarrow> path \<Rightarrow> path \<Rightarrow> state \<Rightarrow> errno option \<times> state" where
  "syncRuleFile force rulesDir targetProjectRulesDir ruleFile st =
     (let relativePath = path_relative rulesDir ruleFile;
          targetPath = path_join targetProjectRulesDir relativePath;
          targetParentDir = path_dirname targetPath
      in case (if \<not> existsSync (disk st) targetParentDir then mkdirSync targetParentDir st
               else (None, st)) of
           (Some e, st1) \<Rightarrow> (Some e, st1)
         | (None, st1) \<Rightarrow>
             if force \<and> existsSync (disk st1) targetPath then
               (case unlinkSync targetPath st1 of
                  (Some err, st2) \<Rightarrow> (None, st2\<lparr>errorSymlinks := errorSymlinks st2 + 1\<rparr>)
                | (None, st2) \<Rightarrow> (None, linkUnlessPresent ruleFile targetPath st2))
             else (None, linkUnlessPresent ruleFile targetPath st1))"

text \<open>
  The test \<^verbatim>\<open>fs.existsSync(p) && fs.statSync(p).isDirectory()\<close> of lines 96 and 102.
\<close>

definition existsAsDirectory :: "node \<Rightarrow> path \<Rightarrow> errno + bool" where
  "existsAsDirectory fs p =
     (if existsSync fs p then
        (case statSync fs p of Inl e \<Rightarrow> Inl e | Inr t \<Rightarrow> Inr (t = Directory))
      else Inr False)"

text \<open>
  The body of \<^verbatim>\<open>projectDirs.forEach\<close>, lines 94 to 175. \<^verbatim>\<open>getAllFiles\<close> and the
  \<^verbatim>\<open>mkdirSync\<close> of the project's directory under the root are outside every \<^verbatim>\<open>try\<close>.
\<close>

definition syncProject :: "bool \<Rightarrow> path \<Rightarrow> string \<Rightarrow> state \<Rightarrow> errno option \<times> state" where
  "syncProject force rootDir projectDir st =
     (let cursorDir = path_join rootDir [projectDir, ''.cursor'']
      in case existsAsDirectory (disk st) cursorDir of
           Inl e \<Rightarrow> (Some e, st)
         | Inr False \<Rightarrow> (None, st)
         | Inr True \<Rightarrow>
             (let rulesDir = path_join cursorDir [''rules'']
              in case existsAsDirectory (disk st) rulesDir of
                   Inl e \<Rightarrow> (Some e, st)
                 | Inr False \<Rightarrow> (None, st)
                 | Inr True \<Rightarrow>
                     (let targetProjectRulesDir =
                            path_join rootDir [''.cursor'', ''rules'', projectDir]
                      in case (if \<not> existsSync (disk st) targetProjectRulesDir
                               then mkdirSync targetProjectRulesDir st else (None, st)) of
                           (Some e, st1) \<Rightarrow> (Some e, st1)
                         | (None, st1) \<Rightarrow>
                             (case getAllFiles (disk st1) rulesDir of
                                Inl e \<Rightarrow> (Some e, st1)
                              | Inr ruleFiles \<Rightarrow>
                                  forEach (syncRuleFile force rulesDir targetProjectRulesDir)
                                    ruleFiles
                                    (st1\<lparr>totalRuleFiles :=
                                           totalRuleFiles st1 + length ruleFiles\<rparr>)))))"

text \<open>Lines 75 to 79: the directories of the workspace root whose name has no leading dot.\<close>

definition projectDirs :: "node \<Rightarrow> path \<Rightarrow> errno + string list" where
  "projectDirs fs rootDir =
     (case readdirSync fs rootDir of
        Inl e \<Rightarrow> Inl e
      | Inr dirents \<Rightarrow>
          Inr (filter (\<lambda>dir. \<not> startsWith dir ''.'')
                 (map dirent_name (filter isDirectory dirents))))"

subsection \<open>\<^verbatim>\<open>createVSCodeSettings\<close> (lines 200 to 269)\<close>

definition eslintConfig :: json where
  "eslintConfig =
     JObject [(''eslint.workingDirectories'', JArray [JObject [(''mode'', JString ''auto'')]])]"

text \<open>
  The function returns whether it changed the settings. \<^verbatim>\<open>mkdirSync\<close> of \<^verbatim>\<open>.vscode\<close> is
  outside the \<^verbatim>\<open>try\<close> blocks; every other error is caught and gives \<^verbatim>\<open>false\<close>.
\<close>

definition createVSCodeSettings :: "runtime \<Rightarrow> path \<Rightarrow> state \<Rightarrow> (errno + bool) \<times> state" where
  "createVSCodeSettings js rootDir st =
     (let vscodeDir = path_join rootDir [''.vscode''];
          settingsPath = path_join vscodeDir [''settings.json'']
      in case (if \<not> existsSync (disk st) vscodeDir then mkdirSync vscodeDir st
               else (None, st)) of
           (Some e, st1) \<Rightarrow> (Inl e, st1)
         | (None, st1) \<Rightarrow>
             if existsSync (disk st1) settingsPath then
               (case readFileSync (disk st1) settingsPath of
                  Inl err \<Rightarrow> (Inr False, st1)
                | Inr existingContent \<Rightarrow>
                    (let existingSettings =
                           (if trim js existingContent \<noteq> [] then
                              (case JSON_parse js existingContent of
                                 Some v \<Rightarrow> v
                               | None \<Rightarrow> JObject [])
                            else JObject [])
                     in case getProperty existingSettings ''eslint.workingDirectories'' of
                          Inl err \<Rightarrow> (Inr False, st1)
                        | Inr v \<Rightarrow>
                            if truthy v then (Inr False, st1)
                            else
                              (let mergedSettings = spread existingSettings eslintConfig
                               in case writeFileSync settingsPath
                                         (JSON_stringify js mergedSettings) st1 of
                                    (Some err, st2) \<Rightarrow> (Inr False, st2)
                                  | (None, st2) \<Rightarrow> (Inr True, st2))))
             else
               (case writeFileSync settingsPath (JSON_stringify js eslintConfig) st1 of
                  (Some err, st2) \<Rightarrow> (Inr False, st2)
                | (None, st2) \<Rightarrow> (Inr True, st2)))"

subsection \<open>The whole script\<close>

text \<open>
  A run either ends with an uncaught exception or prints its summary: the number of projects,
  the four counters (which the state holds) and whether the settings were updated. The
  options \<^verbatim>\<open>--help\<close> and \<^verbatim>\<open>--version\<close> exit before any of this and are left out; \<open>force\<close>
  is \<^verbatim>\<open>options.force\<close> and \<open>rootDir\<close> is \<^verbatim>\<open>process.cwd()\<close>.
\<close>

datatype outcome = Uncaught errno | Summary nat bool

definition initial :: "node \<Rightarrow> state" where
  "initial fs =
     \<lparr>disk = fs, calls = [], totalRuleFiles = 0, createdSymlinks = 0,
      skippedSymlinks = 0, errorSymlinks = 0\<rparr>"

text \<open>Lines 65 to 175; the value is \<^verbatim>\<open>projectDirs\<close>.\<close>

definition synchronise :: "bool \<Rightarrow> path \<Rightarrow> state \<Rightarrow> (errno + string list) \<times> state" where
  "synchronise force rootDir st =
     (let rootCursorRulesDir = path_join rootDir [''.cursor'', ''rules'']
      in case (if \<not> existsSync (disk st) rootCursorRulesDir
               then mkdirSync rootCursorRulesDir st else (None, st)) of
           (Some e, st1) \<Rightarrow> (Inl e, st1)
         | (None, st1) \<Rightarrow>
             (case projectDirs (disk st1) rootDir of
                Inl e \<Rightarrow> (Inl e, st1)
              | Inr dirs \<Rightarrow>
                  (case forEach (syncProject force rootDir) dirs st1 of
                     (Some e, st2) \<Rightarrow> (Inl e, st2)
                   | (None, st2) \<Rightarrow> (Inr dirs, st2))))"

definition run :: "runtime \<Rightarrow> bool \<Rightarrow> path \<Rightarrow> state \<Rightarrow> outcome \<times> state" where
  "run js force rootDir st =
     (case synchronise force rootDir st of
        (Inl e, st2) \<Rightarrow> (Uncaught e, st2)
      | (Inr dirs, st2) \<Rightarrow>
          (case createVSCodeSettings js rootDir st2 of
             (Inl e, st3) \<Rightarrow> (Uncaught e, st3)
           | (Inr vscodeSettingsUpdated, st3) \<Rightarrow>
               (Summary (length dirs) vscodeSettingsUpdated, st3)))"

section \<open>Example workspaces\<close>

text \<open>
  The examples run in the workspace \<^verbatim>\<open>/ws\<close>. \<open>exampleRuntime\<close> gives \<^verbatim>\<open>JSON.parse\<close> and
  \<^verbatim>\<open>JSON.stringify\<close> at the texts and values the examples use (\<open>eslintText\<close> is what
  \<^verbatim>\<open>JSON.stringify(eslintConfig, null, 2)\<close> prints) and \<^verbatim>\<open>trim\<close> for ASCII white space.
\<close>

definition workspaceRoot :: path where
  "workspaceRoot = [''ws'']"

definition asciiTrim :: "string \<Rightarrow> string" where
  "asciiTrim s =
     (let ws = (\<lambda>c. c \<in> set [CHR '' '', CHR 0x09, CHR 0x0A, CHR 0x0B, CHR 0x0C, CHR 0x0D])
      in rev (dropWhile ws (rev (dropWhile ws s))))"

definition eslintText :: string where
  \<open>eslintText = ''{\<newline>  "eslint.workingDirectories": [\<newline>    {\<newline>      "mode": "auto"\<newline>    }\<newline>  ]\<newline>}''\<close>

definition disabledText :: string where
  \<open>disabledText = ''{"eslint.workingDirectories": false}''\<close>

definition exampleRuntime :: runtime where
  "exampleRuntime =
     \<lparr>JSON_parse = (\<lambda>s. if s = disabledText
                        then Some (JObject [(''eslint.workingDirectories'', JBool False)])
                        else if s = eslintText then Some eslintConfig
                        else None),
      JSON_stringify = (\<lambda>j. if j = eslintConfig then eslintText else []),
      trim = asciiTrim\<rparr>"

text \<open>
  \<^verbatim>\<open>/ws/projA/.cursor/rules/x.mdc\<close> and \<^verbatim>\<open>/ws/projB/.cursor/rules/sub/y.mdc\<close>, no
  \<^verbatim>\<open>/ws/.cursor\<close>.
\<close>

definition twoProjects :: node where
  "twoProjects = Dir True True [(''ws'', Dir True True
     [(''projA'', Dir True True [(''.cursor'', Dir True True [(''rules'', Dir True True
          [(''x.mdc'', File True True ''a'')])])]),
      (''projB'', Dir True True [(''.cursor'', Dir True True [(''rules'', Dir True True
          [(''sub'', Dir True True [(''y.mdc'', File True True ''b'')])])])])])]"

text \<open>A settings file in which the user has set the key to \<^verbatim>\<open>false\<close>.\<close>

definition settingsDisabled :: node where
  "settingsDisabled = Dir True True [(''ws'', Dir True True
     [(''.vscode'', Dir True True [(''settings.json'', File True True disabledText)])])]"

text \<open>
  The rules of \<^verbatim>\<open>projA\<close> hold a directory that may not be listed; \<^verbatim>\<open>projB\<close> has one rule
  file.
\<close>

definition unreadableRules :: node where
  "unreadableRules = Dir True True [(''ws'', Dir True True
     [(''projA'', Dir True True [(''.cursor'', Dir True True [(''rules'', Dir True True
          [(''locked'', Dir False True [(''x.mdc'', File True True ''a'')])])])]),
      (''projB'', Dir True True [(''.cursor'', Dir True True [(''rules'', Dir True True
          [(''y.mdc'', File True True ''b'')])])])])]"

text \<open>The one rule file of \<^verbatim>\<open>projA\<close> is a symbolic link to a file that is gone.\<close>

definition danglingRule :: node where
  "danglingRule = Dir True True [(''ws'', Dir True True
     [(''projA'', Dir True True [(''.cursor'', Dir True True [(''rules'', Dir True True
          [(''x.mdc'', Symlink [''ws'', ''gone.mdc''])])])])])]"

section \<open>The scenario of the specification\<close>

text \<open>
  C5. One run on the workspace \<open>twoProjects\<close>, whatever the run time: the summary reports 2
  projects, 2 rule files, 2 links created, none skipped, none failed. Under
  \<^verbatim>\<open>/ws/.cursor/rules\<close> there are the two project directories and nothing else, holding
  exactly one entry for each rule file, at the rule file's relative path; that entry is a
  symbolic link to the absolute path of the rule file, and resolves to it.
\<close>

theorem scenario_two_projects:
  "(case run js False workspaceRoot (initial twoProjects) of
      (out, st) \<Rightarrow>
        out = Summary 2 True
        \<and> totalRuleFiles st = 2 \<and> createdSymlinks st = 2
        \<and> skippedSymlinks st = 0 \<and> errorSymlinks st = 0
        \<and> readdirSync (disk st) [''ws'', ''.cursor'', ''rules'']
            = Inr [Dirent ''projA'' Directory, Dirent ''projB'' Directory]
        \<and> readdirSync (disk st) [''ws'', ''.cursor'', ''rules'', ''projA'']
            = Inr [Dirent ''x.mdc'' SymbolicLink]
        \<and> readdirSync (disk st) [''ws'', ''.cursor'', ''rules'', ''projB'']
            = Inr [Dirent ''sub'' Directory]
        \<and> readdirSync (disk st) [''ws'', ''.cursor'', ''rules'', ''projB'', ''sub'']
            = Inr [Dirent ''y.mdc'' SymbolicLink]
        \<and> readlinkSync (disk st) [''ws'', ''.cursor'', ''rules'', ''projA'', ''x.mdc'']
            = Inr [''ws'', ''projA'', ''.cursor'', ''rules'', ''x.mdc'']
        \<and> readlinkSync (disk st) [''ws'', ''.cursor'', ''rules'', ''projB'', ''sub'', ''y.mdc'']
            = Inr [''ws'', ''projB'', ''.cursor'', ''rules'', ''sub'', ''y.mdc'']
        \<and> realpath (disk st) [''ws'', ''.cursor'', ''rules'', ''projA'', ''x.mdc'']
            = Inr [''ws'', ''projA'', ''.cursor'', ''rules'', ''x.mdc'']
        \<and> realpath (disk st) [''ws'', ''.cursor'', ''rules'', ''projB'', ''sub'', ''y.mdc'']
            = Inr [''ws'', ''projB'', ''.cursor'', ''rules'', ''sub'', ''y.mdc'']
        \<and> getAllFiles (disk st) [''ws'', ''projA'', ''.cursor'', ''rules'']
            = Inr [[''ws'', ''projA'', ''.cursor'', ''rules'', ''x.mdc'']]
        \<and> getAllFiles (disk st) [''ws'', ''projB'', ''.cursor'', ''rules'']
            = Inr [[''ws'', ''projB'', ''.cursor'', ''rules'', ''sub'', ''y.mdc'']])"
  by code_simp

section \<open>Where the script departs from the specification\<close>

text \<open>
  C1. The settings file holds \<^verbatim>\<open>{"eslint.workingDirectories": false}\<close>: the key is present,
  with a false value. Line 234 tests the value, not the presence of the key, so the script
  overwrites the user's setting and reports a change.
\<close>

theorem settings_false_value_overwritten:
  "(case createVSCodeSettings exampleRuntime workspaceRoot (initial settingsDisabled) of
      (changed, st) \<Rightarrow>
        readFileSync settingsDisabled [''ws'', ''.vscode'', ''settings.json'']
          = Inr disabledText
        \<and> JSON_parse exampleRuntime disabledText
          = Some (JObject [(''eslint.workingDirectories'', JBool False)])
        \<and> changed = Inr True
        \<and> readFileSync (disk st) [''ws'', ''.vscode'', ''settings.json''] = Inr eslintText
        \<and> calls st = [(WriteFile [''ws'', ''.vscode'', ''settings.json''] eslintText, None)])"
  by code_simp

text \<open>
  C2. On \<open>unreadableRules\<close> the \<^verbatim>\<open>readdirSync\<close> of \<^verbatim>\<open>getAllFiles\<close> throws \<open>EACCES\<close> while
  the script handles \<^verbatim>\<open>projA\<close>. No \<^verbatim>\<open>try\<close> surrounds the call: the exception ends the
  run, nothing is counted as failed, and \<^verbatim>\<open>projB\<close> is never looked at.
\<close>

theorem unreadable_rules_directory_ends_run:
  "(case run exampleRuntime False workspaceRoot (initial unreadableRules) of
      (out, st) \<Rightarrow>
        out = Uncaught EACCES
        \<and> errorSymlinks st = 0 \<and> createdSymlinks st = 0 \<and> totalRuleFiles st = 0
        \<and> calls st = [(Mkdir [''ws'', ''.cursor'', ''rules''], None),
                      (Mkdir [''ws'', ''.cursor'', ''rules'', ''projA''], None)]
        \<and> existsSync (disk st) [''ws'', ''.cursor'', ''rules'', ''projB''] = False)"
  by code_simp

section \<open>Properties of the file-system model\<close>

text \<open>
  \<open>entries_kept fs fs'\<close>: every entry of \<open>fs\<close>, at whatever place of the tree, is an entry
  of \<open>fs'\<close> of the same type, link target and permissions. \<open>files_kept\<close>: every file
  keeps its content.
\<close>

definition entries_kept :: "node \<Rightarrow> node \<Rightarrow> bool" where
  "entries_kept fs fs' =
     (\<forall>p nd. get fs p = Some nd \<longrightarrow> (\<exists>nd'. get fs' p = Some nd' \<and> shape_of nd' = shape_of nd))"

definition files_kept :: "node \<Rightarrow> node \<Rightarrow> bool" where
  "files_kept fs fs' =
     (\<forall>p r w s. get fs p = Some (File r w s) \<longrightarrow> get fs' p = Some (File r w s))"

lemma shape_put [simp]: "q \<noteq> [] \<Longrightarrow> shape_of (put q new nd) = shape_of nd"
  by (cases q; cases nd) (auto split: option.splits)

lemma put_File [simp]: "q \<noteq> [] \<Longrightarrow> put q new (File r w s) = File r w s"
  by (cases q) auto

lemma get_put:
  "get fs p = Some nd \<Longrightarrow> \<not> strict_prefix q p
    \<Longrightarrow> get (put q new fs) p = Some (if prefix p q then put (drop (length p) q) new nd else nd)"
proof (induction q new fs arbitrary: p nd rule: put.induct)
  case (1 new nd0)
  then show ?case by (cases p) auto
next
  case (2 c cs new r w es)
  show ?case
  proof (cases p)
    case Nil
    with 2 show ?thesis by simp
  next
    case (Cons c' cs')
    show ?thesis
    proof (cases "c' = c")
      case False
      with 2 Cons show ?thesis
        by (auto simp: update_conv' split: option.splits)
    next
      case True
      with "2.prems"(1) Cons obtain ch where ch: "map_of es c = Some ch" and g: "get ch cs' = Some nd"
        by (auto split: option.splits)
      from "2.prems"(2) Cons True have "\<not> strict_prefix cs cs'" by auto
      from "2.IH"[OF ch g this] ch Cons True show ?thesis
        by (simp add: update_conv')
    qed
  qed
next
  case (3 c cs new s)
  then show ?case by (cases p) auto
next
  case (4 c cs new t)
  then show ?case by (cases p) auto
qed

lemma get_put_new:
  assumes "q \<noteq> []" and "get fs (butlast q) = Some (Dir r w es)"
  shows "get (put q new fs) q = Some new"
proof -
  have "\<not> strict_prefix q (butlast q)"
    using assms(1) by (cases q rule: rev_cases) (auto simp: strict_prefix_def)
  moreover have "drop (length q - Suc 0) q = [last q]"
    using assms(1) by (cases q rule: rev_cases) auto
  ultimately have "get (put q new fs) (butlast q) = Some (put [last q] new (Dir r w es))"
    using get_put[OF assms(2), of q new] by (simp add: prefixeq_butlast)
  then have "get (put q new fs) (butlast q @ [last q]) = Some new"
    by (subst get_snoc) (auto simp: update_conv' split: option.splits)
  with assms(1) show ?thesis by simp
qed


lemma get_append:
  "get fs (q @ r) = (case get fs q of None \<Rightarrow> None | Some x \<Rightarrow> get x r)"
  by (induction fs q rule: get.induct) (auto split: option.splits)

lemma get_strict_prefix:
  assumes "get fs p = Some nd" and "strict_prefix q p"
  obtains r w es where "get fs q = Some (Dir r w es)"
proof -
  from assms(2) obtain c cs where p: "p = q @ c # cs"
    by (cases "drop (length q) p") (auto simp: strict_prefix_def prefix_def)
  with assms(1) obtain x where x: "get fs q = Some x" and "get x (c # cs) = Some nd"
    by (auto simp: get_append split: option.splits)
  then show ?thesis by (cases x) (auto intro: that)
qed

lemma entries_kept_refl [simp]: "entries_kept fs fs"
  by (simp add: entries_kept_def)

lemma entries_kept_trans: "entries_kept a b \<Longrightarrow> entries_kept b c \<Longrightarrow> entries_kept a c"
  unfolding entries_kept_def by fastforce

lemma files_kept_refl [simp]: "files_kept fs fs"
  by (simp add: files_kept_def)

lemma files_kept_trans: "files_kept a b \<Longrightarrow> files_kept b c \<Longrightarrow> files_kept a c"
  unfolding files_kept_def by blast

lemma kept_put_fresh:
  assumes "get fs q = None"
  shows "entries_kept fs (put q new fs)" and "files_kept fs (put q new fs)"
proof -
  have *: "get (put q new fs) p = Some (if prefix p q then put (drop (length p) q) new nd else nd)
           \<and> (prefix p q \<longrightarrow> drop (length p) q \<noteq> [])"
    if g: "get fs p = Some nd" for p nd
  proof -
    have ns: "\<not> strict_prefix q p"
      using g assms by (auto elim: get_strict_prefix)
    have "p \<noteq> q" using g assms by auto
    then have "prefix p q \<longrightarrow> drop (length p) q \<noteq> []"
      by (auto simp: prefix_def)
    with get_put[OF g ns] show ?thesis by simp
  qed
  show "entries_kept fs (put q new fs)"
    unfolding entries_kept_def using * by auto
  show "files_kept fs (put q new fs)"
    unfolding files_kept_def using * by auto
qed

lemma entries_kept_put_file:
  assumes "get fs q = Some (File r w c)"
  shows "entries_kept fs (put q (File r w d) fs)"
proof -
  have "\<exists>nd'. get (put q (File r w d) fs) p = Some nd' \<and> shape_of nd' = shape_of nd"
    if g: "get fs p = Some nd" for p nd
  proof -
    have ns: "\<not> strict_prefix q p"
      using g assms by (auto elim: get_strict_prefix)
    show ?thesis
    proof (cases "p = q")
      case True
      with g assms get_put[OF g ns, of "File r w d"] show ?thesis by auto
    next
      case False
      then have "prefix p q \<longrightarrow> drop (length p) q \<noteq> []"
        by (auto simp: prefix_def)
      with get_put[OF g ns, of "File r w d"] show ?thesis by auto
    qed
  qed
  then show ?thesis unfolding entries_kept_def by blast
qed

lemma namei_mono:
  "entries_kept fs fs' \<Longrightarrow> namei n False fs cur p = Inr rp
    \<Longrightarrow> namei n False fs' cur p = Inr rp"
proof (induction n "False" fs cur p rule: namei.induct)
  case (1 n fs cur)
  then show ?case by simp
next
  case (2 n fs cur c cs)
  from "2.prems"(2) obtain r w es nd where
    d: "get fs cur = Some (Dir r w es)" and m: "map_of es c = Some nd"
    by (auto split: option.splits node.splits)
  from m d have gc: "get fs (cur @ [c]) = Some nd" by (simp add: get_snoc)
  from "2.prems"(1) d obtain es' where d': "get fs' cur = Some (Dir r w es')"
  proof -
    from "2.prems"(1) d obtain x where "get fs' cur = Some x" and "shape_of x = SDir r w"
      unfolding entries_kept_def by fastforce
    then show ?thesis by (cases x) (auto intro: that)
  qed
  from "2.prems"(1) gc obtain nd' where
    gc': "get fs' (cur @ [c]) = Some nd'" and sh: "shape_of nd' = shape_of nd"
    unfolding entries_kept_def by blast
  from gc' d' have m': "map_of es' c = Some nd'" by (simp add: get_snoc)
  show ?case
  proof (cases nd)
    case (File fr fw s)
    with sh obtain s' where "nd' = File fr fw s'" by (cases nd') auto
    with 2 d m d' m' File show ?thesis by simp
  next
    case (Symlink t)
    with sh have nd': "nd' = Symlink t" by (cases nd') auto
    show ?thesis
    proof (cases n)
      case 0
      with "2.prems" d m Symlink show ?thesis by simp
    next
      case (Suc k)
      with 2 d m d' m' Symlink nd' show ?thesis by simp
    qed
  next
    case (Dir r0 w0 es0)
    with sh obtain es0' where "nd' = Dir r0 w0 es0'" by (cases nd') auto
    with 2 d m d' m' Dir show ?thesis by simp
  qed
qed


lemma lookup_entry_absent:
  "lookup_entry fs p = Inr (w, rp, None) \<Longrightarrow> get fs rp = None"
  by (auto simp: lookup_entry_def get_snoc split: if_splits sum.splits option.splits node.splits)

lemma fs_mkdir_kept:
  assumes "fs_mkdir fs p = (r, fs')"
  shows "entries_kept fs fs'" and "files_kept fs fs'"
  using assms
  by (auto simp: fs_mkdir_def kept_put_fresh dest!: lookup_entry_absent
      split: sum.splits option.splits if_splits prod.splits)

lemma fs_symlink_kept:
  assumes "fs_symlink fs t p = (r, fs')"
  shows "entries_kept fs fs'" and "files_kept fs fs'"
  using assms
  by (auto simp: fs_symlink_def kept_put_fresh dest!: lookup_entry_absent
      split: sum.splits option.splits if_splits prod.splits)

lemma fs_mkdirp_kept:
  "fs_mkdirp fs pre p = (r, fs') \<Longrightarrow> entries_kept fs fs' \<and> files_kept fs fs'"
proof (induction p arbitrary: fs pre)
  case Nil
  then show ?case by simp
next
  case (Cons c cs)
  show ?case
  proof (cases "statSync fs (pre @ [c])")
    case (Inr t)
    with Cons show ?thesis by (cases t) (auto split: if_splits)
  next
    case (Inl e)
    obtain r1 fs1 where m: "fs_mkdir fs (pre @ [c]) = (r1, fs1)" by fastforce
    show ?thesis
    proof (cases r1)
      case (Some e1)
      with Cons.prems Inl m show ?thesis using fs_mkdir_kept[OF m] by simp
    next
      case None
      with Cons.prems Inl m have "fs_mkdirp fs1 (pre @ [c]) cs = (r, fs')" by simp
      then have "entries_kept fs1 fs' \<and> files_kept fs1 fs'" by (rule Cons.IH)
      with fs_mkdir_kept[OF m] show ?thesis
        by (blast intro: entries_kept_trans files_kept_trans)
    qed
  qed
qed

lemma fs_writeFile_kept:
  assumes "fs_writeFile fs p data = (r, fs')"
  shows "entries_kept fs fs'"
  using assms
  by (auto simp: fs_writeFile_def kept_put_fresh entries_kept_put_file
      split: sum.splits option.splits if_splits prod.splits node.splits)


lemma forEach_invariant:
  assumes "forEach f xs s = (r, s')" and "P s"
    and "\<And>x u r u'. x \<in> set xs \<Longrightarrow> P u \<Longrightarrow> f x u = (r, u') \<Longrightarrow> P u'"
  shows "P s'"
  using assms
proof (induction xs arbitrary: s)
  case Nil
  then show ?case by simp
next
  case (Cons x xs)
  obtain r1 s1 where step: "f x s = (r1, s1)" by fastforce
  have p1: "P s1"
    by (rule Cons.prems(3)[OF _ Cons.prems(2) step]) simp
  show ?case
  proof (cases r1)
    case None
    with Cons.prems(1) step have "forEach f xs s1 = (r, s')" by simp
    show ?thesis
    proof (rule Cons.IH[OF \<open>forEach f xs s1 = (r, s')\<close> p1])
      fix y u q u'
      assume "y \<in> set xs" "P u" "f y u = (q, u')"
      then show "P u'" using Cons.prems(3)[of y u q u'] by simp
    qed
  next
    case (Some e)
    with Cons.prems(1) step p1 show ?thesis by simp
  qed
qed

definition kept :: "state \<Rightarrow> state \<Rightarrow> bool" where
  "kept st st' = (entries_kept (disk st) (disk st') \<and> files_kept (disk st) (disk st'))"

lemma kept_refl [simp]: "kept st st"
  by (simp add: kept_def)

lemma kept_trans: "kept a b \<Longrightarrow> kept b c \<Longrightarrow> kept a c"
  unfolding kept_def by (blast intro: entries_kept_trans files_kept_trans)

lemma kept_counters [simp]:
  "kept st (st'\<lparr>createdSymlinks := a\<rparr>) = kept st st'"
  "kept st (st'\<lparr>errorSymlinks := b\<rparr>) = kept st st'"
  "kept st (st'\<lparr>skippedSymlinks := c\<rparr>) = kept st st'"
  "kept st (st'\<lparr>totalRuleFiles := d\<rparr>) = kept st st'"
  "kept (st\<lparr>totalRuleFiles := d\<rparr>) st' = kept st st'"
  by (simp_all add: kept_def)

lemma mkdirSync_kept: "mkdirSync p st = (r, st') \<Longrightarrow> kept st st'"
  by (auto simp: mkdirSync_def kept_def split: prod.splits dest: fs_mkdirp_kept)

lemma symlinkSync_kept: "symlinkSync t p st = (r, st') \<Longrightarrow> kept st st'"
  by (auto simp: symlinkSync_def kept_def split: prod.splits dest: fs_symlink_kept)

lemma writeFileSync_kept:
  "writeFileSync p data st = (r, st') \<Longrightarrow> entries_kept (disk st) (disk st')"
  by (auto simp: writeFileSync_def split: prod.splits dest: fs_writeFile_kept)

lemma linkUnlessPresent_kept: "kept st (linkUnlessPresent ruleFile targetPath st)"
  by (auto simp: linkUnlessPresent_def split: prod.splits option.splits dest: symlinkSync_kept)

lemma syncRuleFile_kept:
  "syncRuleFile False rulesDir targetDir ruleFile st = (r, st') \<Longrightarrow> kept st st'"
  by (auto simp: syncRuleFile_def Let_def split: if_splits prod.splits option.splits
      dest: mkdirSync_kept intro: kept_trans linkUnlessPresent_kept)

lemma forEach_kept:
  assumes "forEach f xs st = (r, st')" and "\<And>x u r u'. f x u = (r, u') \<Longrightarrow> kept u u'"
  shows "kept st st'"
  by (rule forEach_invariant[OF assms(1), where P = "kept st"])
     (auto intro: kept_trans assms(2))

lemma syncProject_kept:
  assumes "syncProject False rootDir projectDir st = (r, st')"
  shows "kept st st'"
proof -
  have loop: "kept u u'"
    if "forEach (syncRuleFile False a b) xs u = (r, u')" for a b xs u u'
    using that by (rule forEach_kept) (rule syncRuleFile_kept)
  from assms show ?thesis
    by (auto simp: syncProject_def Let_def
        split: sum.splits bool.splits if_splits prod.splits option.splits
        dest!: mkdirSync_kept loop intro: kept_trans)
qed

lemma synchronise_kept:
  assumes "synchronise False rootDir st = (r, st')"
  shows "kept st st'"
proof -
  have loop: "kept u u'"
    if "forEach (syncProject False rootDir) xs u = (r, u')" for xs u u' r
    using that by (rule forEach_kept) (rule syncProject_kept)
  from assms show ?thesis
    by (auto simp: synchronise_def Let_def
        split: sum.splits if_splits prod.splits option.splits
        dest!: mkdirSync_kept loop intro: kept_trans)
qed

lemma createVSCodeSettings_kept:
  assumes "createVSCodeSettings js rootDir st = (r, st')"
  shows "entries_kept (disk st) (disk st')"
  using assms
  by (auto simp: createVSCodeSettings_def Let_def kept_def
      split: sum.splits if_splits prod.splits option.splits
      dest!: mkdirSync_kept writeFileSync_kept intro: entries_kept_trans)

lemma run_kept:
  assumes "run js False rootDir st = (out, st')"
  shows "entries_kept (disk st) (disk st')"
  using assms
  by (auto simp: run_def kept_def split: sum.splits prod.splits
      dest!: synchronise_kept createVSCodeSettings_kept intro: entries_kept_trans)


lemma entries_kept_Dir:
  assumes "entries_kept fs fs'" and "get fs p = Some (Dir r w es)"
  obtains es' where "get fs' p = Some (Dir r w es')"
proof -
  from assms obtain x where "get fs' p = Some x" and "shape_of x = SDir r w"
    unfolding entries_kept_def by fastforce
  then show ?thesis by (cases x) (auto intro: that)
qed

lemma realpath_mono:
  "entries_kept fs fs' \<Longrightarrow> realpath fs p = Inr rp \<Longrightarrow> realpath fs' p = Inr rp"
  unfolding realpath_def by (rule namei_mono)

lemma existsSync_mono:
  "entries_kept fs fs' \<Longrightarrow> existsSync fs p \<Longrightarrow> existsSync fs' p"
  by (auto simp: existsSync_def split: sum.splits dest: realpath_mono)

lemma lookup_entry_mono:
  assumes "entries_kept fs fs'" and "lookup_entry fs p = Inr (w, rp, Some nd)"
  obtains nd' where "lookup_entry fs' p = Inr (w, rp, Some nd')" and "shape_of nd' = shape_of nd"
proof -
  from assms(2) obtain rpar r es where
    p: "p \<noteq> []" and rp: "realpath fs (butlast p) = Inr rpar"
    and d: "get fs rpar = Some (Dir r w es)" and m: "map_of es (last p) = Some nd"
    and rpeq: "rp = rpar @ [last p]"
    by (auto simp: lookup_entry_def split: if_splits sum.splits option.splits node.splits)
  from assms(1) d obtain es' where d': "get fs' rpar = Some (Dir r w es')"
    by (rule entries_kept_Dir)
  from d m have "get fs (rpar @ [last p]) = Some nd" by (simp add: get_snoc)
  with assms(1) obtain nd' where
    g': "get fs' (rpar @ [last p]) = Some nd'" and sh: "shape_of nd' = shape_of nd"
    unfolding entries_kept_def by blast
  from g' d' have "map_of es' (last p) = Some nd'" by (simp add: get_snoc)
  with p realpath_mono[OF assms(1) rp] d' rpeq have "lookup_entry fs' p = Inr (w, rp, Some nd')"
    by (simp add: lookup_entry_def)
  then show ?thesis using sh by (rule that)
qed

lemma lstatSync_mono:
  assumes "entries_kept fs fs'" and "lstatSync fs p = Inr s"
  shows "lstatSync fs' p = Inr s"
proof (cases "p = []")
  case True
  with assms show ?thesis
    unfolding entries_kept_def lstatSync_def by (metis get.simps(1) option.sel sum.inject(2))
next
  case False
  with assms(2) obtain w rp nd where
    "lookup_entry fs p = Inr (w, rp, Some nd)" and "s = shape_of nd"
    by (auto simp: lstatSync_def split: sum.splits option.splits)
  with assms(1) False show ?thesis
    by (auto simp: lstatSync_def elim!: lookup_entry_mono)
qed

lemma readFileSync_mono:
  assumes "entries_kept fs fs'" and "files_kept fs fs'" and "readFileSync fs p = Inr c"
  shows "readFileSync fs' p = Inr c"
proof -
  from assms(3) obtain rp w where "realpath fs p = Inr rp" and "get fs rp = Some (File True w c)"
    by (auto simp: readFileSync_def split: sum.splits option.splits node.splits if_splits)
  with assms(1,2) show ?thesis
    by (auto simp: readFileSync_def files_kept_def dest: realpath_mono)
qed

section \<open>What the program does, case by case\<close>

text \<open>Every path \<^verbatim>\<open>getAllFiles\<close> returns lies below the directory it was given.\<close>

lemma strict_prefix_snoc: "strict_prefix (p @ [c]) f \<Longrightarrow> strict_prefix p f"
  by (auto simp: strict_prefix_def prefix_def)

lemma traverse_appends:
  "traverse fs dir files = (r, files')
    \<Longrightarrow> \<exists>new. files' = files @ new \<and> (\<forall>f \<in> set new. strict_prefix dir f)"
proof (induction fs dir files arbitrary: r files' rule: traverse.induct)
  case (1 fs currentDir files)
  show ?case
  proof (cases "readdirSync fs currentDir")
    case (Inl e)
    with "1.prems" show ?thesis by (simp add: traverse.simps)
  next
    case (Inr entries)
    let ?P = "\<lambda>u. \<exists>new. u = files @ new \<and> (\<forall>f \<in> set new. strict_prefix currentDir f)"
    let ?body = "\<lambda>entry files.
               let fullPath = path_join currentDir [dirent_name entry]
               in if isDirectory entry then traverse fs fullPath files
                  else (None, files @ [fullPath])"
    from "1.prems" Inr have loop: "forEach ?body entries files = (r, files')"
      by (simp add: traverse.simps)
    show ?thesis
    proof (rule forEach_invariant[OF loop, where P = ?P])
      show "?P files" by simp
    next
      fix x u q u'
      assume x: "x \<in> set entries" and u: "?P u" and step: "?body x u = (q, u')"
      then obtain new where new: "u = files @ new" "\<forall>f \<in> set new. strict_prefix currentDir f"
        by blast
      show "?P u'"
      proof (cases "isDirectory x")
        case True
        with step have "traverse fs (path_join currentDir [dirent_name x]) u = (q, u')" by simp
        from "1.IH"[OF Inr x _ True this] obtain new' where
          "u' = u @ new'" "\<forall>f \<in> set new'. strict_prefix (path_join currentDir [dirent_name x]) f"
          by auto
        moreover have "strict_prefix currentDir f"
          if "strict_prefix (path_join currentDir [dirent_name x]) f" for f
          using that by (auto simp: path_join_def strict_prefix_def prefix_def)
        ultimately show ?thesis using new
          by (intro exI[of _ "new @ new'"]) auto
      next
        case False
        with step new show ?thesis
          by (auto simp: path_join_def strict_prefix_def
              intro!: exI[of _ "new @ [currentDir @ [dirent_name x]]"])
      qed
    qed
  qed
qed

lemma getAllFiles_below:
  "getAllFiles fs dir = Inr files \<Longrightarrow> f \<in> set files \<Longrightarrow> strict_prefix dir f"
  by (auto simp: getAllFiles_def split: prod.splits option.splits dest!: traverse_appends)

lemma path_relative_below:
  "prefix dir f \<Longrightarrow> path_relative dir f = drop (length dir) f"
  by (induction dir f rule: path_relative.induct) auto


text \<open>
  The invariant of the list of calls: every \<^verbatim>\<open>symlinkSync\<close> links a path under
  \<^verbatim>\<open><root>/.cursor/rules/<d>\<close> to a path under \<^verbatim>\<open><root>/<d>/.cursor/rules\<close>, for a
  name \<open>d\<close> without a leading dot.
\<close>

definition links_within :: "path \<Rightarrow> (fs_call \<times> errno option) list \<Rightarrow> bool" where
  "links_within rootDir cs =
     (\<forall>t p r. (SymlinkTo t p, r) \<in> set cs \<longrightarrow>
        (\<exists>d. \<not> startsWith d ''.''
           \<and> prefix (rootDir @ [''.cursor'', ''rules'', d]) p
           \<and> prefix (rootDir @ [d, ''.cursor'', ''rules'']) t))"

lemma calls_mkdirSync: "mkdirSync p st = (r, st') \<Longrightarrow> calls st' = calls st @ [(Mkdir p, r)]"
  by (auto simp: mkdirSync_def split: prod.splits)

lemma calls_unlinkSync: "unlinkSync p st = (r, st') \<Longrightarrow> calls st' = calls st @ [(Unlink p, r)]"
  by (auto simp: unlinkSync_def split: prod.splits)

lemma calls_symlinkSync:
  "symlinkSync t p st = (r, st') \<Longrightarrow> calls st' = calls st @ [(SymlinkTo t p, r)]"
  by (auto simp: symlinkSync_def split: prod.splits)

lemma calls_writeFileSync:
  "writeFileSync p data st = (r, st') \<Longrightarrow> calls st' = calls st @ [(WriteFile p data, r)]"
  by (auto simp: writeFileSync_def split: prod.splits)

lemma links_within_snoc [simp]:
  "links_within rootDir (cs @ [(Mkdir p, r)]) = links_within rootDir cs"
  "links_within rootDir (cs @ [(Unlink p, r)]) = links_within rootDir cs"
  "links_within rootDir (cs @ [(WriteFile p data, r)]) = links_within rootDir cs"
  by (auto simp: links_within_def)

lemma links_within_Nil [simp]: "links_within rootDir []"
  by (simp add: links_within_def)

text \<open>
  \<open>ensureDir\<close> names the statement \<^verbatim>\<open>if (!fs.existsSync(p)) fs.mkdirSync(p, { recursive: true })\<close>,
  which the script has four times, and \<open>targetOf\<close> the target path of a rule file; the
  case rules list the ways through \<open>syncRuleFile\<close> and \<open>syncProject\<close>.
\<close>

definition ensureDir :: "path \<Rightarrow> state \<Rightarrow> errno option \<times> state" where
  "ensureDir p st = (if \<not> existsSync (disk st) p then mkdirSync p st else (None, st))"

definition targetOf :: "path \<Rightarrow> path \<Rightarrow> path \<Rightarrow> path" where
  "targetOf rulesDir targetDir ruleFile = targetDir @ path_relative rulesDir ruleFile"

lemma syncRuleFile_alt:
  "syncRuleFile force rulesDir targetDir ruleFile st =
     (case ensureDir (butlast (targetOf rulesDir targetDir ruleFile)) st of
        (Some e, st1) \<Rightarrow> (Some e, st1)
      | (None, st1) \<Rightarrow>
          if force \<and> existsSync (disk st1) (targetOf rulesDir targetDir ruleFile) then
            (case unlinkSync (targetOf rulesDir targetDir ruleFile) st1 of
               (Some err, st2) \<Rightarrow> (None, st2\<lparr>errorSymlinks := errorSymlinks st2 + 1\<rparr>)
             | (None, st2) \<Rightarrow>
                 (None, linkUnlessPresent ruleFile (targetOf rulesDir targetDir ruleFile) st2))
          else (None, linkUnlessPresent ruleFile (targetOf rulesDir targetDir ruleFile) st1))"
  unfolding syncRuleFile_def Let_def ensureDir_def targetOf_def path_join_def path_dirname_def
  by (rule refl)

lemma syncRuleFile_cases:
  assumes "syncRuleFile force rulesDir targetDir ruleFile st = (r, st')"
  obtains
    (mkdir_failed) e where
      "ensureDir (butlast (targetOf rulesDir targetDir ruleFile)) st = (Some e, st')"
      and "r = Some e"
  | (unlink_failed) st1 e st2 where
      "ensureDir (butlast (targetOf rulesDir targetDir ruleFile)) st = (None, st1)"
      and "force" and "existsSync (disk st1) (targetOf rulesDir targetDir ruleFile)"
      and "unlinkSync (targetOf rulesDir targetDir ruleFile) st1 = (Some e, st2)"
      and "st' = st2\<lparr>errorSymlinks := errorSymlinks st2 + 1\<rparr>" and "r = None"
  | (relinked) st1 st2 where
      "ensureDir (butlast (targetOf rulesDir targetDir ruleFile)) st = (None, st1)"
      and "force" and "existsSync (disk st1) (targetOf rulesDir targetDir ruleFile)"
      and "unlinkSync (targetOf rulesDir targetDir ruleFile) st1 = (None, st2)"
      and "st' = linkUnlessPresent ruleFile (targetOf rulesDir targetDir ruleFile) st2"
      and "r = None"
  | (plain) st1 where
      "ensureDir (butlast (targetOf rulesDir targetDir ruleFile)) st = (None, st1)"
      and "\<not> (force \<and> existsSync (disk st1) (targetOf rulesDir targetDir ruleFile))"
      and "st' = linkUnlessPresent ruleFile (targetOf rulesDir targetDir ruleFile) st1"
      and "r = None"
proof -
  let ?t = "targetOf rulesDir targetDir ruleFile"
  obtain r1 st1 where e: "ensureDir (butlast ?t) st = (r1, st1)" by fastforce
  obtain r2 st2 where u: "unlinkSync ?t st1 = (r2, st2)" by fastforce
  from assms have eq: "(case ensureDir (butlast ?t) st of
           (Some e, st1) \<Rightarrow> (Some e, st1)
         | (None, st1) \<Rightarrow>
             if force \<and> existsSync (disk st1) ?t then
               (case unlinkSync ?t st1 of
                  (Some err, st2) \<Rightarrow> (None, st2\<lparr>errorSymlinks := errorSymlinks st2 + 1\<rparr>)
                | (None, st2) \<Rightarrow> (None, linkUnlessPresent ruleFile ?t st2))
             else (None, linkUnlessPresent ruleFile ?t st1)) = (r, st')"
    by (simp only: syncRuleFile_alt)
  show ?thesis
  proof (cases r1)
    case (Some e1)
    with eq e show ?thesis by (intro mkdir_failed[of e1]) auto
  next
    case None
    show ?thesis
    proof (cases "force \<and> existsSync (disk st1) ?t")
      case False
      with eq e None show ?thesis by (intro plain[of st1]) auto
    next
      case True
      show ?thesis
      proof (cases r2)
        case (Some e2)
        with eq e None True u show ?thesis by (intro unlink_failed[of st1 e2 st2]) auto
      next
        case None2: None
        with eq e None True u show ?thesis by (intro relinked[of st1 st2]) auto
      qed
    qed
  qed
qed

lemma syncProject_cases:
  assumes "syncProject force rootDir d st = (r, st')"
  obtains
    (stat_failed) e where "r = Some e" and "st' = st"
      and "existsAsDirectory (disk st) (rootDir @ [d, ''.cursor'']) = Inl e
           \<or> existsAsDirectory (disk st) (rootDir @ [d, ''.cursor'', ''rules'']) = Inl e"
  | (no_rules) "r = None" and "st' = st"
      and "existsAsDirectory (disk st) (rootDir @ [d, ''.cursor'']) \<noteq> Inr True
           \<or> existsAsDirectory (disk st) (rootDir @ [d, ''.cursor'', ''rules'']) \<noteq> Inr True"
  | (mkdir_failed) e where
      "existsAsDirectory (disk st) (rootDir @ [d, ''.cursor'', ''rules'']) = Inr True"
      and "ensureDir (rootDir @ [''.cursor'', ''rules'', d]) st = (Some e, st')" and "r = Some e"
  | (readdir_failed) e where
      "existsAsDirectory (disk st) (rootDir @ [d, ''.cursor'', ''rules'']) = Inr True"
      and "ensureDir (rootDir @ [''.cursor'', ''rules'', d]) st = (None, st')"
      and "getAllFiles (disk st') (rootDir @ [d, ''.cursor'', ''rules'']) = Inl e"
      and "r = Some e"
  | (files) st1 ruleFiles where
      "existsAsDirectory (disk st) (rootDir @ [d, ''.cursor'', ''rules'']) = Inr True"
      and "ensureDir (rootDir @ [''.cursor'', ''rules'', d]) st = (None, st1)"
      and "getAllFiles (disk st1) (rootDir @ [d, ''.cursor'', ''rules'']) = Inr ruleFiles"
      and "forEach (syncRuleFile force (rootDir @ [d, ''.cursor'', ''rules''])
                     (rootDir @ [''.cursor'', ''rules'', d])) ruleFiles
             (st1\<lparr>totalRuleFiles := totalRuleFiles st1 + length ruleFiles\<rparr>) = (r, st')"
proof -
  let ?rulesDir = "rootDir @ [d, ''.cursor'', ''rules'']"
  let ?target = "rootDir @ [''.cursor'', ''rules'', d]"
  obtain r1 st1 where e: "ensureDir ?target st = (r1, st1)" by fastforce
  from assms e show ?thesis
    apply (simp add: syncProject_def Let_def path_join_def ensureDir_def[symmetric]
        split: sum.splits bool.splits option.splits)
         apply (auto intro: stat_failed no_rules mkdir_failed readdir_failed files)
    done
qed

lemma ensureDir_links_within:
  assumes "ensureDir p st = (r, st')" and "links_within rootDir (calls st)"
  shows "links_within rootDir (calls st')"
  using assms by (auto simp: ensureDir_def split: if_splits dest!: calls_mkdirSync)

lemma linkUnlessPresent_links_within:
  assumes "links_within rootDir (calls st)" and "\<not> startsWith d ''.''"
    and "prefix (rootDir @ [''.cursor'', ''rules'', d]) targetPath"
    and "prefix (rootDir @ [d, ''.cursor'', ''rules'']) ruleFile"
  shows "links_within rootDir (calls (linkUnlessPresent ruleFile targetPath st))"
proof (cases "existsSync (disk st) targetPath")
  case True
  with assms(1) show ?thesis by (simp add: linkUnlessPresent_def)
next
  case False
  obtain r st1 where s: "symlinkSync ruleFile targetPath st = (r, st1)" by fastforce
  then have "calls st1 = calls st @ [(SymlinkTo ruleFile targetPath, r)]"
    by (rule calls_symlinkSync)
  with assms have "links_within rootDir (calls st1)"
    unfolding links_within_def by auto
  with False s show ?thesis
    by (cases r) (simp_all add: linkUnlessPresent_def)
qed

lemma syncRuleFile_links_within:
  assumes run: "syncRuleFile force (rootDir @ [d, ''.cursor'', ''rules''])
             (rootDir @ [''.cursor'', ''rules'', d]) ruleFile st = (r, st')"
    and inv: "links_within rootDir (calls st)" and d: "\<not> startsWith d ''.''"
    and below: "prefix (rootDir @ [d, ''.cursor'', ''rules'']) ruleFile"
  shows "links_within rootDir (calls st')"
proof -
  let ?t = "targetOf (rootDir @ [d, ''.cursor'', ''rules''])
              (rootDir @ [''.cursor'', ''rules'', d]) ruleFile"
  have tp: "prefix (rootDir @ [''.cursor'', ''rules'', d]) ?t"
    by (simp add: targetOf_def)
  note link = linkUnlessPresent_links_within[OF _ d tp below]
  from run show ?thesis
  proof (cases rule: syncRuleFile_cases)
    case (mkdir_failed e)
    with inv show ?thesis by (auto dest: ensureDir_links_within)
  next
    case (unlink_failed st1 e st2)
    with inv show ?thesis
      by (auto dest!: ensureDir_links_within[where rootDir = rootDir] calls_unlinkSync)
  next
    case (relinked st1 st2)
    with inv have "links_within rootDir (calls st2)"
      by (auto dest!: ensureDir_links_within[where rootDir = rootDir] calls_unlinkSync)
    with relinked show ?thesis by (simp add: link)
  next
    case (plain st1)
    with inv have "links_within rootDir (calls st1)"
      by (auto dest!: ensureDir_links_within[where rootDir = rootDir])
    with plain show ?thesis by (simp add: link)
  qed
qed

lemma syncProject_links_within:
  assumes run: "syncProject force rootDir d st = (r, st')"
    and inv: "links_within rootDir (calls st)" and d: "\<not> startsWith d ''.''"
  shows "links_within rootDir (calls st')"
  using run
proof (cases rule: syncProject_cases)
  case (files st1 ruleFiles)
  from files(2) inv have i1: "links_within rootDir (calls st1)" by (rule ensureDir_links_within)
  show ?thesis
  proof (rule forEach_invariant[OF files(4), where P = "\<lambda>u. links_within rootDir (calls u)"])
    show "links_within rootDir
       (calls (st1\<lparr>totalRuleFiles := totalRuleFiles st1 + length ruleFiles\<rparr>))"
      using i1 by simp
  next
    fix x u q u'
    assume "x \<in> set ruleFiles" and "links_within rootDir (calls u)"
      and "syncRuleFile force (rootDir @ [d, ''.cursor'', ''rules''])
             (rootDir @ [''.cursor'', ''rules'', d]) x u = (q, u')"
    moreover from \<open>x \<in> set ruleFiles\<close> files(3)
    have "prefix (rootDir @ [d, ''.cursor'', ''rules'']) x"
      by (auto dest: getAllFiles_below simp: strict_prefix_def)
    ultimately show "links_within rootDir (calls u')"
      using d by (auto intro: syncRuleFile_links_within)
  qed
qed (use inv in \<open>auto dest: ensureDir_links_within\<close>)

lemma projectDirs_not_hidden:
  "projectDirs fs rootDir = Inr dirs \<Longrightarrow> d \<in> set dirs \<Longrightarrow> \<not> startsWith d ''.''"
  by (auto simp: projectDirs_def split: sum.splits)

lemma synchronise_links_within:
  assumes run: "synchronise force rootDir st = (r, st')"
    and inv: "links_within rootDir (calls st)"
  shows "links_within rootDir (calls st')"
proof -
  let ?root = "path_join rootDir [''.cursor'', ''rules'']"
  obtain r1 st1 where e: "ensureDir ?root st = (r1, st1)"
    by fastforce
  from e inv have i1: "links_within rootDir (calls st1)" by (rule ensureDir_links_within)
  show ?thesis
  proof (cases r1)
    case (Some e1)
    with run e i1 show ?thesis by (simp add: synchronise_def Let_def ensureDir_def[symmetric])
  next
    case None
    show ?thesis
    proof (cases "projectDirs (disk st1) rootDir")
      case (Inl e2)
      with run e None i1 show ?thesis
        by (simp add: synchronise_def Let_def ensureDir_def[symmetric])
    next
      case (Inr dirs)
      obtain q st2 where loop: "forEach (syncProject force rootDir) dirs st1 = (q, st2)"
        by fastforce
      have "links_within rootDir (calls st2)"
        by (rule forEach_invariant[OF loop, where P = "\<lambda>u. links_within rootDir (calls u)"])
           (auto intro: i1 syncProject_links_within dest: projectDirs_not_hidden[OF Inr])
      with run e None Inr loop show ?thesis
        by (cases q) (auto simp: synchronise_def Let_def ensureDir_def[symmetric])
    qed
  qed
qed

lemma createVSCodeSettings_links_within:
  assumes "createVSCodeSettings js rootDir st = (r, st')" and "links_within rootDir (calls st)"
  shows "links_within rootDir (calls st')"
proof -
  let ?dir = "path_join rootDir [''.vscode'']"
  obtain r1 st1 where e: "ensureDir ?dir st = (r1, st1)"
    by fastforce
  from e assms(2) have i1: "links_within rootDir (calls st1)" by (rule ensureDir_links_within)
  have w: "links_within rootDir (calls u)" if "writeFileSync p data st1 = (q, u)" for p data q u
    using that i1 by (auto dest!: calls_writeFileSync)
  from assms(1) e i1 show ?thesis
    by (cases r1)
       (auto simp: createVSCodeSettings_def Let_def ensureDir_def[symmetric]
          split: sum.splits if_splits prod.splits option.splits dest: w)
qed


section \<open>Hidden directories\<close>

text \<open>A workspace whose \<^verbatim>\<open>.git\<close> directory has rules of its own.\<close>

definition hiddenGit :: node where
  "hiddenGit = Dir True True [(''ws'', Dir True True
     [(''.git'', Dir True True [(''.cursor'', Dir True True [(''rules'', Dir True True
          [(''h.mdc'', File True True ''h'')])])]),
      (''projA'', Dir True True [(''.cursor'', Dir True True [(''rules'', Dir True True
          [(''x.mdc'', File True True ''a'')])])])])]"

text \<open>
  C8. No name with a leading dot is among \<^verbatim>\<open>projectDirs\<close>, whatever the file system. In a
  run, every call of \<^verbatim>\<open>symlinkSync\<close> (successful or not) creates a path under
  \<^verbatim>\<open><root>/.cursor/rules/<d>\<close> that points under \<^verbatim>\<open><root>/<d>/.cursor/rules\<close> for a name
  \<open>d\<close> without a leading dot, so none is made for a hidden directory; and the project total
  of the summary is the length of \<^verbatim>\<open>projectDirs\<close> as read after the root's
  \<^verbatim>\<open>.cursor/rules\<close> was ensured.
\<close>

theorem hidden_directories_are_no_projects:
  assumes "run js force rootDir st = (out, st')" and "calls st = []"
  shows "(\<forall>fs dirs d. projectDirs fs rootDir = Inr dirs \<longrightarrow> d \<in> set dirs
            \<longrightarrow> \<not> startsWith d ''.'')
       \<and> (\<forall>t p r. (SymlinkTo t p, r) \<in> set (calls st') \<longrightarrow>
            (\<exists>d. \<not> startsWith d ''.''
               \<and> prefix (rootDir @ [''.cursor'', ''rules'', d]) p
               \<and> prefix (rootDir @ [d, ''.cursor'', ''rules'']) t))
       \<and> (\<forall>n u. out = Summary n u \<longrightarrow>
            (\<exists>dirs. projectDirs
                      (disk (if \<not> existsSync (disk st) (rootDir @ [''.cursor'', ''rules''])
                             then snd (mkdirSync (rootDir @ [''.cursor'', ''rules'']) st)
                             else st))
                      rootDir = Inr dirs
               \<and> n = length dirs))"
proof (intro conjI allI impI)
  fix fs dirs d
  assume "projectDirs fs rootDir = Inr dirs" and "d \<in> set dirs"
  then show "\<not> startsWith d ''.''" by (rule projectDirs_not_hidden)
next
  obtain q st2 where s: "synchronise force rootDir st = (q, st2)" by fastforce
  from assms(2) have "links_within rootDir (calls st)" by simp
  with s have l2: "links_within rootDir (calls st2)" by (rule synchronise_links_within)
  have "links_within rootDir (calls st')"
  proof (cases q)
    case (Inl e)
    with assms(1) s l2 show ?thesis by (simp add: run_def)
  next
    case (Inr dirs)
    obtain v st3 where c: "createVSCodeSettings js rootDir st2 = (v, st3)" by fastforce
    from c l2 have "links_within rootDir (calls st3)" by (rule createVSCodeSettings_links_within)
    with assms(1) s Inr c show ?thesis by (cases v) (auto simp: run_def)
  qed
  then show "\<exists>d. \<not> startsWith d ''.''
               \<and> prefix (rootDir @ [''.cursor'', ''rules'', d]) p
               \<and> prefix (rootDir @ [d, ''.cursor'', ''rules'']) t"
    if "(SymlinkTo t p, r) \<in> set (calls st')" for t p r
    using that unfolding links_within_def by blast
next
  fix n u
  assume "out = Summary n u"
  with assms(1) show "\<exists>dirs. projectDirs
                      (disk (if \<not> existsSync (disk st) (rootDir @ [''.cursor'', ''rules''])
                             then snd (mkdirSync (rootDir @ [''.cursor'', ''rules'']) st)
                             else st))
                      rootDir = Inr dirs
               \<and> n = length dirs"
    by (auto simp: run_def synchronise_def Let_def path_join_def
        split: sum.splits prod.splits option.splits if_splits)
qed

theorem hidden_directories_are_no_projects_witness:
  "projectDirs hiddenGit workspaceRoot = Inr [''projA'']
   \<and> \<not> startsWith ''projA'' ''.''
   \<and> fst (run exampleRuntime False workspaceRoot (initial hiddenGit)) = Summary 1 True
   \<and> filter (\<lambda>c. case fst c of SymlinkTo t p \<Rightarrow> True | _ \<Rightarrow> False)
        (calls (snd (run exampleRuntime False workspaceRoot (initial hiddenGit))))
      = [(SymlinkTo [''ws'', ''projA'', ''.cursor'', ''rules'', ''x.mdc'']
            [''ws'', ''.cursor'', ''rules'', ''projA'', ''x.mdc''], None)]
   \<and> (\<exists>d. \<not> startsWith d ''.''
         \<and> prefix (workspaceRoot @ [''.cursor'', ''rules'', d])
              [''ws'', ''.cursor'', ''rules'', ''projA'', ''x.mdc'']
         \<and> prefix (workspaceRoot @ [d, ''.cursor'', ''rules''])
              [''ws'', ''projA'', ''.cursor'', ''rules'', ''x.mdc''])"
proof -
  have r: "run exampleRuntime False workspaceRoot (initial hiddenGit)
      = (fst (run exampleRuntime False workspaceRoot (initial hiddenGit)),
         snd (run exampleRuntime False workspaceRoot (initial hiddenGit)))"
    by simp
  have c: "calls (initial hiddenGit) = []" by (simp add: initial_def)
  have p: "projectDirs hiddenGit workspaceRoot = Inr [''projA'']" by code_simp
  have s: "fst (run exampleRuntime False workspaceRoot (initial hiddenGit)) = Summary 1 True"
    by code_simp
  have f: "filter (\<lambda>c. case fst c of SymlinkTo t p \<Rightarrow> True | _ \<Rightarrow> False)
        (calls (snd (run exampleRuntime False workspaceRoot (initial hiddenGit))))
      = [(SymlinkTo [''ws'', ''projA'', ''.cursor'', ''rules'', ''x.mdc'']
            [''ws'', ''.cursor'', ''rules'', ''projA'', ''x.mdc''], None)]"
    by code_simp
  have m: "(SymlinkTo [''ws'', ''projA'', ''.cursor'', ''rules'', ''x.mdc'']
            [''ws'', ''.cursor'', ''rules'', ''projA'', ''x.mdc''], None)
      \<in> set (calls (snd (run exampleRuntime False workspaceRoot (initial hiddenGit))))"
    by code_simp
  note h = hidden_directories_are_no_projects[OF r c]
  from h p have "\<not> startsWith ''projA'' ''.''" by (meson list.set_intros(1))
  moreover from h m have "\<exists>d. \<not> startsWith d ''.''
         \<and> prefix (workspaceRoot @ [''.cursor'', ''rules'', d])
              [''ws'', ''.cursor'', ''rules'', ''projA'', ''x.mdc'']
         \<and> prefix (workspaceRoot @ [d, ''.cursor'', ''rules''])
              [''ws'', ''projA'', ''.cursor'', ''rules'', ''x.mdc'']"
    by blast
  ultimately show ?thesis using p s f by blast
qed

section \<open>Resolving a path and its parent\<close>

text \<open>
  More allowed links never hurt; resolving \<open>p @ q\<close> resolves \<open>p\<close> on the way; a path
  that exists names an entry of a directory that exists.
\<close>

lemma namei_fuel_mono:
  "namei n False fs cur p = Inr rp \<Longrightarrow> n \<le> m \<Longrightarrow> namei m False fs cur p = Inr rp"
proof (induction n "False" fs cur p arbitrary: m rule: namei.induct)
  case (1 n fs cur)
  then show ?case by simp
next
  case (2 n fs cur c cs)
  from "2.prems"(1) obtain r w es nd where
    d: "get fs cur = Some (Dir r w es)" and e: "map_of es c = Some nd"
    by (auto split: option.splits node.splits)
  show ?case
  proof (cases nd)
    case (Symlink t)
    with "2.prems" d e obtain k where k: "n = Suc k" and res: "namei k False fs [] (t @ cs) = Inr rp"
      by (cases n) auto
    from "2.prems"(2) k obtain j where j: "m = Suc j" and "k \<le> j" by (cases m) auto
    with "2.hyps"(2)[OF d refl e Symlink k res] d e Symlink show ?thesis by simp
  next
    case (File fr fw s)
    with "2.prems"(1) d e have "namei n False fs (cur @ [c]) cs = Inr rp" by simp
    from "2.hyps"(1)[OF d refl e File this "2.prems"(2)] d e File show ?thesis by simp
  next
    case (Dir r0 w0 es0)
    with "2.prems"(1) d e have "namei n False fs (cur @ [c]) cs = Inr rp" by simp
    from "2.hyps"(3)[OF d refl e Dir this "2.prems"(2)] d e Dir show ?thesis by simp
  qed
qed

lemma namei_append:
  "namei n False fs cur (p @ q) = Inr rp
    \<Longrightarrow> \<exists>rq m. m \<le> n \<and> namei n False fs cur p = Inr rq \<and> namei m False fs rq q = Inr rp"
proof (induction n "False" fs cur "p @ q" arbitrary: p rule: namei.induct)
  case (1 n fs cur)
  then show ?case by auto
next
  case (2 n fs cur c cs)
  show ?case
  proof (cases p)
    case Nil
    with "2.prems" show ?thesis by (intro exI[of _ cur] exI[of _ n]) simp
  next
    case (Cons c' cs')
    with "2.hyps"(4) have c': "c' = c" and cs: "cs = cs' @ q" by auto
    from "2.prems" Cons c' obtain r w es nd where
      d: "get fs cur = Some (Dir r w es)" and e: "map_of es c = Some nd"
      by (auto split: option.splits node.splits)
    show ?thesis
    proof (cases nd)
      case (Symlink t)
      with "2.prems" Cons c' d e obtain k where
        k: "n = Suc k" and res: "namei k False fs [] ((t @ cs') @ q) = Inr rp"
        by (cases n) auto
      have "t @ cs = (t @ cs') @ q" using cs by simp
      from "2.hyps"(2)[OF d refl e Symlink k this res] obtain rq m where
        "m \<le> k" "namei k False fs [] (t @ cs') = Inr rq" "namei m False fs rq q = Inr rp"
        by blast
      with k d e Symlink Cons c' show ?thesis
        by (intro exI[of _ rq] exI[of _ m]) simp
    next
      case (File fr fw s)
      with "2.prems" Cons c' d e have "namei n False fs (cur @ [c]) (cs' @ q) = Inr rp" by simp
      from "2.hyps"(1)[OF d refl e File cs this] d e File Cons c' show ?thesis by simp
    next
      case (Dir r0 w0 es0)
      with "2.prems" Cons c' d e have "namei n False fs (cur @ [c]) (cs' @ q) = Inr rp" by simp
      from "2.hyps"(3)[OF d refl e Dir cs this] d e Dir Cons c' show ?thesis by simp
    qed
  qed
qed

lemma existsSync_entry:
  assumes "existsSync fs p" and "p \<noteq> []"
  obtains w rp nd where "lookup_entry fs p = Inr (w, rp, Some nd)"
proof -
  from assms(1) obtain rp where "namei SYMLOOP_MAX False fs [] p = Inr rp"
    by (auto simp: existsSync_def realpath_def split: sum.splits)
  with assms(2) have "namei SYMLOOP_MAX False fs [] (butlast p @ [last p]) = Inr rp" by simp
  from namei_append[OF this] obtain rq m where
    rq: "realpath fs (butlast p) = Inr rq" and l: "namei m False fs rq [last p] = Inr rp"
    by (auto simp: realpath_def)
  from l obtain r w es nd where "get fs rq = Some (Dir r w es)" "map_of es (last p) = Some nd"
    by (auto split: option.splits node.splits)
  with rq assms(2) have "lookup_entry fs p = Inr (w, rq @ [last p], Some nd)"
    by (simp add: lookup_entry_def)
  then show ?thesis by (rule that)
qed

lemma existsSync_parent:
  assumes "existsSync fs p"
  shows "existsSync fs (butlast p)"
proof (cases "p = []")
  case True
  with assms show ?thesis by simp
next
  case False
  with assms obtain w rp nd where "lookup_entry fs p = Inr (w, rp, Some nd)"
    by (rule existsSync_entry)
  then show ?thesis
    by (auto simp: lookup_entry_def existsSync_def split: if_splits sum.splits)
qed

lemma shape_of_eq_SLink [simp]:
  "(shape_of nd = SLink l) = (nd = Symlink l)" "(SLink l = shape_of nd) = (nd = Symlink l)"
  by (cases nd; auto)+

lemma dangling_not_exists:
  assumes "lstatSync fs p = Inr (SLink l)" and "p \<noteq> []" and "\<not> existsSync fs l"
  shows "\<not> existsSync fs p"
proof
  assume "existsSync fs p"
  then obtain rp where "namei SYMLOOP_MAX False fs [] p = Inr rp"
    by (auto simp: existsSync_def realpath_def split: sum.splits)
  with assms(2) have "namei SYMLOOP_MAX False fs [] (butlast p @ [last p]) = Inr rp" by simp
  from namei_append[OF this] obtain rq m where
    m: "m \<le> SYMLOOP_MAX" and rq: "realpath fs (butlast p) = Inr rq"
    and l: "namei m False fs rq [last p] = Inr rp"
    by (auto simp: realpath_def)
  from assms(1,2) rq obtain r w es where
    "get fs rq = Some (Dir r w es)" "map_of es (last p) = Some (Symlink l)"
    by (auto simp: lstatSync_def lookup_entry_def
        split: sum.splits option.splits node.splits)
  with l obtain k where "m = Suc k" and "namei k False fs [] l = Inr rp"
    by (cases m) auto
  with m have "namei SYMLOOP_MAX False fs [] l = Inr rp"
    by (auto intro: namei_fuel_mono)
  with assms(3) show False by (simp add: existsSync_def realpath_def)
qed





lemma fs_symlink_fails: "fs_symlink fs t p = (Some e, fs1) \<Longrightarrow> fs1 = fs"
  by (auto simp: fs_symlink_def split: sum.splits option.splits if_splits)


lemma fs_symlink_readlink:
  assumes "fs_symlink fs t p = (None, fs1)"
  shows "readlinkSync fs1 p = Inr t"
proof -
  from assms obtain rp where
    l: "lookup_entry fs p = Inr (True, rp, None)" and fs1: "fs1 = put rp (Symlink t) fs"
    by (auto simp: fs_symlink_def split: sum.splits option.splits if_splits)
  from l obtain rq r es where
    p: "p \<noteq> []" and rq: "realpath fs (butlast p) = Inr rq"
    and d: "get fs rq = Some (Dir r True es)" and rp: "rp = rq @ [last p]"
    by (auto simp: lookup_entry_def split: if_splits sum.splits option.splits node.splits)
  from assms have k: "entries_kept fs fs1" by (rule fs_symlink_kept)
  from k d obtain es' where d': "get fs1 rq = Some (Dir r True es')" by (rule entries_kept_Dir)
  have "get fs1 rp = Some (Symlink t)"
    unfolding fs1 using d rp by (intro get_put_new) auto
  with d' rp have "map_of es' (last p) = Some (Symlink t)" by (simp add: get_snoc)
  with p realpath_mono[OF k rq] d' show ?thesis
    by (simp add: readlinkSync_def lookup_entry_def)
qed

lemma namei_exists:
  "namei n False fs cur p = Inr rp \<Longrightarrow> get fs cur \<noteq> None \<Longrightarrow> get fs rp \<noteq> None"
proof (induction n "False" fs cur p rule: namei.induct)
  case (1 n fs cur)
  then show ?case by simp
next
  case (2 n fs cur c cs)
  from "2.prems"(1) obtain r w es nd where
    d: "get fs cur = Some (Dir r w es)" and e: "map_of es c = Some nd"
    by (auto split: option.splits node.splits)
  then have g: "get fs (cur @ [c]) \<noteq> None" by (simp add: get_snoc)
  show ?case
  proof (cases nd)
    case (Symlink t)
    with "2.prems" d e obtain k where k: "n = Suc k" and res: "namei k False fs [] (t @ cs) = Inr rp"
      by (cases n) auto
    from "2.hyps"(2)[OF d refl e Symlink k res] show ?thesis by simp
  next
    case (File fr fw s)
    with "2.prems"(1) d e have "namei n False fs (cur @ [c]) cs = Inr rp" by simp
    from "2.hyps"(1)[OF d refl e File this g] show ?thesis .
  next
    case (Dir r0 w0 es0)
    with "2.prems"(1) d e have "namei n False fs (cur @ [c]) cs = Inr rp" by simp
    from "2.hyps"(3)[OF d refl e Dir this g] show ?thesis .
  qed
qed

lemma realpath_exists: "realpath fs p = Inr rp \<Longrightarrow> get fs rp \<noteq> None"
  unfolding realpath_def by (erule namei_exists) simp



lemma ensureDir_present: "existsSync (disk st) p \<Longrightarrow> ensureDir p st = (None, st)"
  by (simp add: ensureDir_def)

section \<open>A target path that is taken\<close>





text \<open>The mirror of \<^verbatim>\<open>projA\<close> holds a link to a file that is gone.\<close>

definition danglingMirror :: node where
  "danglingMirror = Dir True True [(''ws'', Dir True True
     [(''projA'', Dir True True [(''.cursor'', Dir True True [(''rules'', Dir True True
          [(''x.mdc'', File True True ''a'')])])]),
      (''.cursor'', Dir True True [(''rules'', Dir True True
          [(''projA'', Dir True True
             [(''x.mdc'', Symlink [''ws'', ''old'', ''x.mdc''])])])])])]"

text \<open>
  C10. Let the target path of a rule file be a symbolic link whose referent does not exist.
  \<^verbatim>\<open>existsSync\<close> follows the link and reports the target as absent. With or without
  \<^verbatim>\<open>--force\<close> the script then makes exactly one call that changes the file system, a
  \<^verbatim>\<open>symlinkSync\<close> that fails with \<open>EEXIST\<close>: the link is not unlinked, the file is not
  counted as skipped, and the failed count goes up by one.
\<close>

theorem dangling_target_counts_as_failed:
  assumes "targetPath = path_join targetDir (path_relative rulesDir ruleFile)"
    and "targetPath \<noteq> []"
    and "lstatSync (disk st) targetPath = Inr (SLink referent)"
    and "\<not> existsSync (disk st) referent"
  shows "\<not> existsSync (disk st) targetPath
       \<and> syncRuleFile force rulesDir targetDir ruleFile st
           = (None, st\<lparr>calls := calls st @ [(SymlinkTo ruleFile targetPath, Some EEXIST)],
                      errorSymlinks := errorSymlinks st + 1\<rparr>)"
proof -
  have t: "targetOf rulesDir targetDir ruleFile = targetPath"
    by (simp add: targetOf_def assms(1) path_join_def)
  from assms(3,2,4) have ne: "\<not> existsSync (disk st) targetPath" by (rule dangling_not_exists)
  from assms(2,3) obtain w rp where
    l: "lookup_entry (disk st) targetPath = Inr (w, rp, Some (Symlink referent))"
    by (auto simp: lstatSync_def split: sum.splits option.splits)
  then have "existsSync (disk st) (butlast targetPath)"
    by (auto simp: lookup_entry_def existsSync_def split: if_splits sum.splits)
  then have e: "ensureDir (butlast targetPath) st = (None, st)" by (rule ensureDir_present)
  from l have "fs_symlink (disk st) ruleFile targetPath = (Some EEXIST, disk st)"
    by (simp add: fs_symlink_def)
  with ne e show ?thesis
    by (simp add: syncRuleFile_alt t linkUnlessPresent_def symlinkSync_def)
qed

theorem dangling_target_counts_as_failed_witness:
  "lstatSync danglingMirror [''ws'', ''.cursor'', ''rules'', ''projA'', ''x.mdc'']
      = Inr (SLink [''ws'', ''old'', ''x.mdc''])
   \<and> existsSync danglingMirror [''ws'', ''old'', ''x.mdc''] = False
   \<and> existsSync danglingMirror [''ws'', ''.cursor'', ''rules'', ''projA'', ''x.mdc''] = False
   \<and> syncRuleFile False [''ws'', ''projA'', ''.cursor'', ''rules'']
        [''ws'', ''.cursor'', ''rules'', ''projA'']
        [''ws'', ''projA'', ''.cursor'', ''rules'', ''x.mdc''] (initial danglingMirror)
      = (None, (initial danglingMirror)
           \<lparr>calls := [(SymlinkTo [''ws'', ''projA'', ''.cursor'', ''rules'', ''x.mdc'']
                          [''ws'', ''.cursor'', ''rules'', ''projA'', ''x.mdc''], Some EEXIST)],
            errorSymlinks := 1\<rparr>)
   \<and> syncRuleFile True [''ws'', ''projA'', ''.cursor'', ''rules'']
        [''ws'', ''.cursor'', ''rules'', ''projA'']
        [''ws'', ''projA'', ''.cursor'', ''rules'', ''x.mdc''] (initial danglingMirror)
      = (None, (initial danglingMirror)
           \<lparr>calls := [(SymlinkTo [''ws'', ''projA'', ''.cursor'', ''rules'', ''x.mdc'']
                          [''ws'', ''.cursor'', ''rules'', ''projA'', ''x.mdc''], Some EEXIST)],
            errorSymlinks := 1\<rparr>)"
proof -
  have x: "[''ws'', ''.cursor'', ''rules'', ''projA'', ''x.mdc'']
      = path_join [''ws'', ''.cursor'', ''rules'', ''projA'']
          (path_relative [''ws'', ''projA'', ''.cursor'', ''rules'']
             [''ws'', ''projA'', ''.cursor'', ''rules'', ''x.mdc''])"
    by code_simp
  have n: "[''ws'', ''.cursor'', ''rules'', ''projA'', ''x.mdc''] \<noteq> []" by simp
  have l: "lstatSync (disk (initial danglingMirror))
      [''ws'', ''.cursor'', ''rules'', ''projA'', ''x.mdc''] = Inr (SLink [''ws'', ''old'', ''x.mdc''])"
    by code_simp
  have d: "\<not> existsSync (disk (initial danglingMirror)) [''ws'', ''old'', ''x.mdc'']"
    by code_simp
  note th = dangling_target_counts_as_failed[OF x n l d]
  have i: "disk (initial danglingMirror) = danglingMirror" by (simp add: initial_def)
  from th[of False] th[of True] l d show ?thesis
    by (simp add: i initial_def)
qed

section \<open>The traversal follows no link\<close>

text \<open>
  \<open>tree_walk\<close> lists a directory given as a tree, by recursion on the tree: the entries of
  a directory in their order, a subdirectory in place, every other entry (a file, or a
  symbolic link wherever it points) as one path. It looks at no link target and resolves no
  path.
\<close>

lemma clearjunk_entry:
  "(n, ch) \<in> set (AList.clearjunk es) \<Longrightarrow> map_of es n = Some ch"
proof -
  assume "(n, ch) \<in> set (AList.clearjunk es)"
  then have "map_of (AList.clearjunk es) n = Some ch" by (simp add: map_of_is_SomeI)
  then show ?thesis by (simp add: map_of_clearjunk)
qed

function tree_walk :: "path \<Rightarrow> node \<Rightarrow> path list \<Rightarrow> errno option \<times> path list" where
  "tree_walk p (Dir r w es) files =
     (if r then
        forEach
          (\<lambda>(n, ch) files.
             case ch of
               Dir _ _ _ \<Rightarrow> tree_walk (p @ [n]) ch files
             | File _ _ _ \<Rightarrow> (None, files @ [p @ [n]])
             | Symlink _ \<Rightarrow> (None, files @ [p @ [n]]))
          (AList.clearjunk es) files
      else (Some EACCES, files))"
| "tree_walk p (File fr fw s) files = (Some ENOTDIR, files)"
| "tree_walk p (Symlink t) files = (Some ENOTDIR, files)"
  by pat_completeness auto
termination
  by (relation "measure (\<lambda>(p, nd, files). weight nd)")
     (auto dest!: clearjunk_entry weight_entry)

declare tree_walk.simps(1) [simp del]

lemma forEach_map: "forEach g (map f xs) s = forEach (\<lambda>x. g (f x)) xs s"
  by (induction xs arbitrary: s) (auto split: prod.splits option.splits)

text \<open>
  The rules of \<^verbatim>\<open>projA\<close> hold a link to the rules directory itself and, one level down, a
  link to its parent.
\<close>

definition linkCycle :: node where
  "linkCycle = Dir True True [(''ws'', Dir True True
     [(''projA'', Dir True True [(''.cursor'', Dir True True [(''rules'', Dir True True
          [(''loop'', Symlink [''ws'', ''projA'', ''.cursor'', ''rules'']),
           (''sub'', Dir True True [(''up'', Symlink [''ws'', ''projA'', ''.cursor''])]),
           (''a.mdc'', File True True ''a'')])])])])]"

text \<open>
  C9. \<open>traverse\<close> is a total function: its definition above is accepted with the proof
  that each recursive call is on a real subdirectory of the directory listed. Started on a
  path that resolves to a node of the file system, it returns exactly what \<open>tree_walk\<close>
  returns on that node: a symbolic link met on the way is listed as a file and not
  entered, whatever it points to, also when the links form a cycle.
\<close>

theorem traversal_follows_no_link:
  assumes "realpath fs dir = Inr rp" and "get fs rp = Some nd"
  shows "traverse fs dir files = tree_walk dir nd files"
  using assms
proof (induction dir nd files arbitrary: rp rule: tree_walk.induct)
  case (1 p r w es files)
  show ?case
  proof (cases r)
    case False
    with "1.prems" show ?thesis
      by (simp add: traverse.simps tree_walk.simps readdirSync_def)
  next
    case True
    let ?body = "\<lambda>entry files.
               let fullPath = path_join p [dirent_name entry]
               in if isDirectory entry then traverse fs fullPath files
                  else (None, files @ [fullPath])"
    let ?walk = "\<lambda>(n, ch) files.
             case ch of
               Dir _ _ _ \<Rightarrow> tree_walk (p @ [n]) ch files
             | File _ _ _ \<Rightarrow> (None, files @ [p @ [n]])
             | Symlink _ \<Rightarrow> (None, files @ [p @ [n]])"
    have step: "?body (case x of (n, nd) \<Rightarrow> Dirent n (ftype_of nd)) u = ?walk x u"
      if x: "x \<in> set (AList.clearjunk es)" for x u
    proof -
      obtain n ch where xn: "x = (n, ch)" by (cases x)
      with x have m: "map_of es n = Some ch" by (auto dest: clearjunk_entry)
      show ?thesis
      proof (cases ch)
        case (Dir r0 w0 es0)
        have "realpath fs (p @ [n]) = Inr (rp @ [n])"
          using "1.prems" m Dir unfolding realpath_def by (intro namei_snoc) auto
        moreover have "get fs (rp @ [n]) = Some ch"
          using "1.prems" m by (simp add: get_snoc)
        ultimately have "traverse fs (p @ [n]) u = tree_walk (p @ [n]) ch u"
          using "1.IH"[OF True x xn[symmetric] Dir] Dir by simp
        with xn Dir show ?thesis by (simp add: isDirectory_def path_join_def)
      next
        case (File fr fw s)
        with xn show ?thesis by (simp add: isDirectory_def path_join_def)
      next
        case (Symlink t)
        with xn show ?thesis by (simp add: isDirectory_def path_join_def)
      qed
    qed
    from "1.prems" True have "traverse fs p files
        = forEach ?body (map (\<lambda>(n, nd). Dirent n (ftype_of nd)) (AList.clearjunk es)) files"
      by (simp add: traverse.simps readdirSync_def)
    also have "\<dots> = forEach (\<lambda>x. ?body (case x of (n, nd) \<Rightarrow> Dirent n (ftype_of nd)))
        (AList.clearjunk es) files"
      by (rule forEach_map)
    also have "\<dots> = forEach ?walk (AList.clearjunk es) files"
      by (rule forEach_cong) (simp_all add: step)
    also have "\<dots> = tree_walk p (Dir r w es) files"
      using True by (simp add: tree_walk.simps)
    finally show ?thesis .
  qed
next
  case (2 p s files)
  then show ?case by (simp add: traverse.simps readdirSync_def)
next
  case (3 p t files)
  then show ?case by (simp add: traverse.simps readdirSync_def)
qed

theorem traversal_follows_no_link_witness:
  "realpath linkCycle [''ws'', ''projA'', ''.cursor'', ''rules'', ''loop'']
      = Inr [''ws'', ''projA'', ''.cursor'', ''rules'']
   \<and> traverse linkCycle [''ws'', ''projA'', ''.cursor'', ''rules''] []
      = (None, [[''ws'', ''projA'', ''.cursor'', ''rules'', ''loop''],
                [''ws'', ''projA'', ''.cursor'', ''rules'', ''sub'', ''up''],
                [''ws'', ''projA'', ''.cursor'', ''rules'', ''a.mdc'']])"
proof -
  have c: "realpath linkCycle [''ws'', ''projA'', ''.cursor'', ''rules'', ''loop'']
      = Inr [''ws'', ''projA'', ''.cursor'', ''rules'']"
    by code_simp
  have r: "realpath linkCycle [''ws'', ''projA'', ''.cursor'', ''rules'']
      = Inr [''ws'', ''projA'', ''.cursor'', ''rules'']"
    by code_simp
  have g: "get linkCycle [''ws'', ''projA'', ''.cursor'', ''rules''] = Some (Dir True True
          [(''loop'', Symlink [''ws'', ''projA'', ''.cursor'', ''rules'']),
           (''sub'', Dir True True [(''up'', Symlink [''ws'', ''projA'', ''.cursor''])]),
           (''a.mdc'', File True True ''a'')])"
    by code_simp
  have t: "tree_walk [''ws'', ''projA'', ''.cursor'', ''rules''] (Dir True True
          [(''loop'', Symlink [''ws'', ''projA'', ''.cursor'', ''rules'']),
           (''sub'', Dir True True [(''up'', Symlink [''ws'', ''projA'', ''.cursor''])]),
           (''a.mdc'', File True True ''a'')]) []
      = (None, [[''ws'', ''projA'', ''.cursor'', ''rules'', ''loop''],
                [''ws'', ''projA'', ''.cursor'', ''rules'', ''sub'', ''up''],
                [''ws'', ''projA'', ''.cursor'', ''rules'', ''a.mdc'']])"
    by code_simp
  from traversal_follows_no_link[OF r g, of "[]"] t c show ?thesis by simp
qed

section \<open>Settings that do not parse\<close>

text \<open>
  Writing a file that exists replaces its content, and nothing else of the path, if the file
  may be written; otherwise the write fails with \<open>EACCES\<close> and changes nothing.
\<close>

lemma namei_creat:
  "namei n False fs cur p = Inr rp \<Longrightarrow> namei n True fs cur p = Inr rp"
proof (induction n "False" fs cur p rule: namei.induct)
  case (1 n fs cur)
  then show ?case by simp
next
  case (2 n fs cur c cs)
  from "2.prems"(1) obtain r w es nd where
    d: "get fs cur = Some (Dir r w es)" and e: "map_of es c = Some nd"
    by (auto split: option.splits node.splits)
  show ?case
  proof (cases nd)
    case (Symlink t)
    with "2.prems" d e obtain k where k: "n = Suc k" and res: "namei k False fs [] (t @ cs) = Inr rp"
      by (cases n) auto
    from "2.hyps"(2)[OF d refl e Symlink k res] d e Symlink k show ?thesis by simp
  next
    case (File fr fw s)
    with "2.prems"(1) d e have "namei n False fs (cur @ [c]) cs = Inr rp" by simp
    from "2.hyps"(1)[OF d refl e File this] d e File show ?thesis by simp
  next
    case (Dir r0 w0 es0)
    with "2.prems"(1) d e have "namei n False fs (cur @ [c]) cs = Inr rp" by simp
    from "2.hyps"(3)[OF d refl e Dir this] d e Dir show ?thesis by simp
  qed
qed

lemma get_put_self: "get fs q = Some x \<Longrightarrow> get (put q new fs) q = Some new"
  using get_put[of fs q x q new] by simp

lemma fs_writeFile_existing:
  assumes "realpath fs p = Inr rp" and "get fs rp = Some (File r w c)"
  shows "fs_writeFile fs p data
           = (if w then (None, put rp (File r w data) fs) else (Some EACCES, fs))"
    and "realpath (put rp (File r w data) fs) p = Inr rp"
    and "get (put rp (File r w data) fs) rp = Some (File r w data)"
proof -
  from assms(1) have "namei SYMLOOP_MAX True fs [] p = Inr rp"
    unfolding realpath_def by (rule namei_creat)
  with assms(2) show "fs_writeFile fs p data
           = (if w then (None, put rp (File r w data) fs) else (Some EACCES, fs))"
    by (simp add: fs_writeFile_def)
  from assms(2) have "entries_kept fs (put rp (File r w data) fs)"
    by (rule entries_kept_put_file)
  then show "realpath (put rp (File r w data) fs) p = Inr rp"
    using assms(1) by (rule realpath_mono)
  from assms(2) show "get (put rp (File r w data) fs) rp = Some (File r w data)"
    by (rule get_put_self)
qed

lemma readFileSync_exists: "readFileSync fs p = Inr c \<Longrightarrow> existsSync fs p"
  by (auto simp: readFileSync_def existsSync_def split: sum.splits)

lemma spread_empty: "spread (JObject []) eslintConfig = eslintConfig"
  by (simp add: spread_def eslintConfig_def)

definition malformedSettings :: node where
  "malformedSettings = Dir True True [(''ws'', Dir True True
     [(''.vscode'', Dir True True
        [(''settings.json'', File True True ''{not json''),
         (''blank.json'', File True True [CHR '' '', CHR 0x0A])])])]"

text \<open>The same settings file, which may be read but not written.\<close>

definition readOnlySettings :: node where
  "readOnlySettings = Dir True True [(''ws'', Dir True True
     [(''.vscode'', Dir True True [(''settings.json'', File True False ''{not json'')])])]"

text \<open>
  C6, as stated, fails on \<open>readOnlySettings\<close>: the content of the settings file does not
  parse, \<^verbatim>\<open>writeFileSync\<close> throws \<open>EACCES\<close>, the \<^verbatim>\<open>catch\<close> of line 248 returns false, and the
  file keeps its content.
\<close>

theorem read_only_settings_are_kept:
  "readFileSync readOnlySettings [''ws'', ''.vscode'', ''settings.json''] = Inr ''{not json''
   \<and> JSON_parse exampleRuntime ''{not json'' = None
   \<and> fst (createVSCodeSettings exampleRuntime workspaceRoot (initial readOnlySettings))
      = Inr False
   \<and> calls (snd (createVSCodeSettings exampleRuntime workspaceRoot (initial readOnlySettings)))
      = [(WriteFile [''ws'', ''.vscode'', ''settings.json''] eslintText, Some EACCES)]
   \<and> disk (snd (createVSCodeSettings exampleRuntime workspaceRoot (initial readOnlySettings)))
      = readOnlySettings"
  by code_simp

text \<open>
  C6, amended. Let the settings file be a file that can be read, with a content that is
  empty after \<^verbatim>\<open>trim\<close> or that \<^verbatim>\<open>JSON.parse\<close> rejects. If the file may be written,
  \<open>createVSCodeSettings\<close> returns true, its one call that changes the file system is the
  \<^verbatim>\<open>writeFileSync\<close> of the settings file, and afterwards the file holds \<^verbatim>\<open>JSON.stringify\<close>
  of the mapping of \<^verbatim>\<open>eslint.workingDirectories\<close> to \<^verbatim>\<open>[{ mode: "auto" }]\<close> and nothing of
  its prior content. If the file may not be written, \<^verbatim>\<open>writeFileSync\<close> throws,
  \<open>createVSCodeSettings\<close> returns false and the file system is as it was.
\<close>

theorem unparsable_settings_are_overwritten:
  assumes "settingsPath = rootDir @ [''.vscode'', ''settings.json'']"
    and "readFileSync (disk st) settingsPath = Inr existingContent"
    and "trim js existingContent = [] \<or> JSON_parse js existingContent = None"
  shows "\<exists>rp w. realpath (disk st) settingsPath = Inr rp
           \<and> get (disk st) rp = Some (File True w existingContent)
           \<and> (if w then
                 createVSCodeSettings js rootDir st
                   = (Inr True,
                      st\<lparr>disk := put rp (File True w (JSON_stringify js eslintConfig)) (disk st),
                         calls := calls st
                           @ [(WriteFile settingsPath (JSON_stringify js eslintConfig), None)]\<rparr>)
                 \<and> readFileSync
                       (put rp (File True w (JSON_stringify js eslintConfig)) (disk st))
                       settingsPath
                     = Inr (JSON_stringify js eslintConfig)
               else
                 createVSCodeSettings js rootDir st
                   = (Inr False,
                      st\<lparr>calls := calls st
                           @ [(WriteFile settingsPath (JSON_stringify js eslintConfig),
                               Some EACCES)]\<rparr>))"
proof -
  let ?data = "JSON_stringify js eslintConfig"
  from assms(2) obtain rp w where
    rp: "realpath (disk st) settingsPath = Inr rp"
    and g: "get (disk st) rp = Some (File True w existingContent)"
    by (auto simp: readFileSync_def split: sum.splits option.splits node.splits if_splits)
  from assms(2) have ex: "existsSync (disk st) settingsPath" by (rule readFileSync_exists)
  then have "existsSync (disk st) (butlast settingsPath)" by (rule existsSync_parent)
  then have dir: "existsSync (disk st) (rootDir @ [''.vscode''])"
    by (simp add: assms(1) butlast_append)
  note w = fs_writeFile_existing[OF rp g, of ?data]
  from ex dir assms(2) have body: "createVSCodeSettings js rootDir st
      = (case writeFileSync settingsPath ?data st of
           (Some err, st2) \<Rightarrow> (Inr False, st2)
         | (None, st2) \<Rightarrow> (Inr True, st2))"
    using assms(3)
    by (auto simp: createVSCodeSettings_def Let_def path_join_def assms(1)[symmetric]
        spread_empty)
  show ?thesis
  proof (cases w)
    case True
    from w(2,3) have "readFileSync (put rp (File True w ?data) (disk st)) settingsPath = Inr ?data"
      by (simp add: readFileSync_def)
    with rp g True body w(1) show ?thesis
      by (auto simp: writeFileSync_def)
  next
    case False
    with rp g body w(1) show ?thesis
      by (auto simp: writeFileSync_def)
  qed
qed

theorem unparsable_settings_are_overwritten_witness:
  "readFileSync malformedSettings [''ws'', ''.vscode'', ''settings.json''] = Inr ''{not json''
   \<and> JSON_parse exampleRuntime ''{not json'' = None
   \<and> fst (createVSCodeSettings exampleRuntime workspaceRoot (initial malformedSettings))
      = Inr True
   \<and> readFileSync
        (disk (snd (createVSCodeSettings exampleRuntime workspaceRoot
                      (initial malformedSettings))))
        [''ws'', ''.vscode'', ''settings.json'']
      = Inr eslintText"
proof -
  have p: "[''ws'', ''.vscode'', ''settings.json''] = workspaceRoot @ [''.vscode'', ''settings.json'']"
    by (simp add: workspaceRoot_def)
  have r: "readFileSync (disk (initial malformedSettings))
      [''ws'', ''.vscode'', ''settings.json''] = Inr ''{not json''"
    by code_simp
  have rp: "realpath (disk (initial malformedSettings)) [''ws'', ''.vscode'', ''settings.json'']
      = Inr [''ws'', ''.vscode'', ''settings.json'']"
    by code_simp
  have g: "get (disk (initial malformedSettings)) [''ws'', ''.vscode'', ''settings.json'']
      = Some (File True True ''{not json'')"
    by code_simp
  have n: "JSON_parse exampleRuntime ''{not json'' = None" by code_simp
  then have h: "trim exampleRuntime ''{not json'' = []
      \<or> JSON_parse exampleRuntime ''{not json'' = None" by simp
  have s: "JSON_stringify exampleRuntime eslintConfig = eslintText" by code_simp
  from unparsable_settings_are_overwritten[OF p r h] rp g r n s show ?thesis
    by (auto simp: initial_def split: if_splits)
qed

section \<open>Running twice\<close>

text \<open>
  C3, as stated, fails on \<open>danglingRule\<close>. The first run creates the link of
  \<^verbatim>\<open>x.mdc\<close> and counts no failure. The link points to a rule file that is itself a link to
  nothing, so in the second run \<^verbatim>\<open>existsSync\<close> does not find the target, \<^verbatim>\<open>symlinkSync\<close>
  throws \<open>EEXIST\<close>, and the one rule file is counted as failed, not as skipped.
\<close>

theorem second_run_fails_on_dangling_rule:
  "fst (run exampleRuntime False workspaceRoot (initial danglingRule)) = Summary 1 True
   \<and> createdSymlinks (snd (run exampleRuntime False workspaceRoot (initial danglingRule))) = 1
   \<and> errorSymlinks (snd (run exampleRuntime False workspaceRoot (initial danglingRule))) = 0
   \<and> fst (run exampleRuntime False workspaceRoot
        (initial (disk (snd (run exampleRuntime False workspaceRoot (initial danglingRule))))))
      = Summary 1 False
   \<and> totalRuleFiles (snd (run exampleRuntime False workspaceRoot
        (initial (disk (snd (run exampleRuntime False workspaceRoot (initial danglingRule)))))))
      = 1
   \<and> skippedSymlinks (snd (run exampleRuntime False workspaceRoot
        (initial (disk (snd (run exampleRuntime False workspaceRoot (initial danglingRule)))))))
      = 0
   \<and> errorSymlinks (snd (run exampleRuntime False workspaceRoot
        (initial (disk (snd (run exampleRuntime False workspaceRoot (initial danglingRule)))))))
      = 1"
  by code_simp

text \<open>The counters and the links of one pass over the rule files of a project.\<close>

lemma counters_mkdirSync:
  "mkdirSync p st = (r, st') \<Longrightarrow>
     errorSymlinks st' = errorSymlinks st \<and> skippedSymlinks st' = skippedSymlinks st
     \<and> createdSymlinks st' = createdSymlinks st \<and> totalRuleFiles st' = totalRuleFiles st"
  by (auto simp: mkdirSync_def split: prod.splits)

lemma counters_symlinkSync:
  "symlinkSync t p st = (r, st') \<Longrightarrow>
     errorSymlinks st' = errorSymlinks st \<and> skippedSymlinks st' = skippedSymlinks st
     \<and> createdSymlinks st' = createdSymlinks st \<and> totalRuleFiles st' = totalRuleFiles st"
  by (auto simp: symlinkSync_def split: prod.splits)

lemma counters_ensureDir:
  "ensureDir p st = (r, st') \<Longrightarrow>
     errorSymlinks st' = errorSymlinks st \<and> skippedSymlinks st' = skippedSymlinks st
     \<and> createdSymlinks st' = createdSymlinks st \<and> totalRuleFiles st' = totalRuleFiles st"
  by (auto simp: ensureDir_def split: if_splits dest: counters_mkdirSync)

lemma ensureDir_kept: "ensureDir p st = (r, st') \<Longrightarrow> kept st st'"
  by (auto simp: ensureDir_def split: if_splits dest: mkdirSync_kept)

lemma fs_mkdir_exists:
  assumes "fs_mkdir fs p = (None, fs')"
  shows "existsSync fs' p"
proof -
  from assms obtain rp where
    l: "lookup_entry fs p = Inr (True, rp, None)" and fs': "fs' = put rp (Dir True True []) fs"
    by (auto simp: fs_mkdir_def split: sum.splits option.splits if_splits)
  from l obtain rq r es where
    p: "p \<noteq> []" and rq: "realpath fs (butlast p) = Inr rq"
    and d: "get fs rq = Some (Dir r True es)" and rp: "rp = rq @ [last p]"
    by (auto simp: lookup_entry_def split: if_splits sum.splits option.splits node.splits)
  from assms have k: "entries_kept fs fs'" by (rule fs_mkdir_kept)
  from k d obtain es' where d': "get fs' rq = Some (Dir r True es')" by (rule entries_kept_Dir)
  have "get fs' rp = Some (Dir True True [])"
    unfolding fs' using d rp by (intro get_put_new) auto
  with d' rp have m: "map_of es' (last p) = Some (Dir True True [])" by (simp add: get_snoc)
  have "namei SYMLOOP_MAX False fs' [] (butlast p @ [last p]) = Inr (rq @ [last p])"
    using realpath_mono[OF k rq] d' m unfolding realpath_def by (intro namei_snoc) auto
  with p show ?thesis by (simp add: existsSync_def realpath_def)
qed

lemma fs_mkdirp_exists:
  "fs_mkdirp fs pre p = (None, fs') \<Longrightarrow> existsSync fs pre \<Longrightarrow> existsSync fs' (pre @ p)"
proof (induction p arbitrary: fs pre)
  case Nil
  then show ?case by simp
next
  case (Cons c cs)
  show ?case
  proof (cases "statSync fs (pre @ [c])")
    case (Inr t)
    with Cons.prems(1) have t: "t = Directory" and rec: "fs_mkdirp fs (pre @ [c]) cs = (None, fs')"
      by (cases t; auto split: if_splits)+
    from Inr have "existsSync fs (pre @ [c])"
      by (auto simp: statSync_def existsSync_def split: sum.splits)
    from Cons.IH[OF rec this] show ?thesis by simp
  next
    case (Inl e)
    obtain r1 fs1 where m: "fs_mkdir fs (pre @ [c]) = (r1, fs1)" by fastforce
    with Cons.prems(1) Inl have r1: "r1 = None" and rec: "fs_mkdirp fs1 (pre @ [c]) cs = (None, fs')"
      by (cases r1; auto)+
    from m r1 have "existsSync fs1 (pre @ [c])" by (auto dest: fs_mkdir_exists)
    from Cons.IH[OF rec this] show ?thesis by simp
  qed
qed

lemma ensureDir_exists: "ensureDir p st = (None, st') \<Longrightarrow> existsSync (disk st') p"
  by (auto simp: ensureDir_def mkdirSync_def existsSync_def[of _ "[]"] realpath_def
      split: if_splits prod.splits dest!: fs_mkdirp_exists)

lemma readlinkSync_mono:
  assumes "entries_kept fs fs'" and "readlinkSync fs p = Inr t"
  shows "readlinkSync fs' p = Inr t"
proof -
  from assms(2) obtain w rp where "lookup_entry fs p = Inr (w, rp, Some (Symlink t))"
    by (auto simp: readlinkSync_def split: sum.splits option.splits node.splits)
  with assms(1) obtain nd' where
    "lookup_entry fs' p = Inr (w, rp, Some nd')" and "shape_of nd' = shape_of (Symlink t)"
    by (rule lookup_entry_mono)
  then show ?thesis by (simp add: readlinkSync_def)
qed

text \<open>A rule file is \<open>linked\<close> when its target path exists or is a link to it.\<close>

definition linked :: "node \<Rightarrow> path \<Rightarrow> path \<Rightarrow> bool" where
  "linked fs ruleFile targetPath =
     (existsSync fs targetPath \<or> readlinkSync fs targetPath = Inr ruleFile)"

lemma linked_mono: "entries_kept fs fs' \<Longrightarrow> linked fs f t \<Longrightarrow> linked fs' f t"
  by (auto simp: linked_def dest: existsSync_mono readlinkSync_mono)

lemma linkUnlessPresent_linked:
  assumes "errorSymlinks (linkUnlessPresent f t st) = errorSymlinks st"
  shows "linked (disk (linkUnlessPresent f t st)) f t"
proof (cases "existsSync (disk st) t")
  case True
  then show ?thesis by (simp add: linkUnlessPresent_def linked_def)
next
  case False
  obtain r st1 where s: "symlinkSync f t st = (r, st1)" by fastforce
  show ?thesis
  proof (cases r)
    case None
    with s have "readlinkSync (disk st1) t = Inr f"
      by (auto simp: symlinkSync_def split: prod.splits dest: fs_symlink_readlink)
    with False s None show ?thesis by (simp add: linkUnlessPresent_def linked_def)
  next
    case (Some e)
    with False s assms counters_symlinkSync[OF s] show ?thesis
      by (simp add: linkUnlessPresent_def)
  qed
qed

lemma errorSymlinks_linkUnlessPresent:
  "errorSymlinks st \<le> errorSymlinks (linkUnlessPresent f t st)"
  by (auto simp: linkUnlessPresent_def split: prod.splits option.splits
      dest: counters_symlinkSync)

lemma syncRuleFile_no_force:
  assumes "syncRuleFile False rulesDir targetDir f st = (r, st')"
  obtains
    (mkdir_failed) e where
      "ensureDir (butlast (targetOf rulesDir targetDir f)) st = (Some e, st')" and "r = Some e"
  | (linked) st1 where
      "ensureDir (butlast (targetOf rulesDir targetDir f)) st = (None, st1)"
      and "st' = linkUnlessPresent f (targetOf rulesDir targetDir f) st1" and "r = None"
  using assms by (cases rule: syncRuleFile_cases) auto

lemma errorSymlinks_syncRuleFile:
  assumes "syncRuleFile False rulesDir targetDir f st = (r, st')"
  shows "errorSymlinks st \<le> errorSymlinks st'"
  using assms
proof (cases rule: syncRuleFile_no_force)
  case (mkdir_failed e)
  then show ?thesis by (auto dest: counters_ensureDir)
next
  case (linked st1)
  with errorSymlinks_linkUnlessPresent[of st1 f "targetOf rulesDir targetDir f"]
  show ?thesis by (auto dest: counters_ensureDir)
qed

lemma syncRuleFile_linked:
  assumes "syncRuleFile False rulesDir targetDir f st = (None, st')"
    and "errorSymlinks st' = errorSymlinks st"
  shows "linked (disk st') f (targetOf rulesDir targetDir f)"
  using assms(1)
proof (cases rule: syncRuleFile_no_force)
  case (linked st1)
  with assms(2) show ?thesis
    by (auto dest!: counters_ensureDir intro!: linkUnlessPresent_linked)
qed simp

lemma errorSymlinks_forEach_syncRuleFile:
  assumes "forEach (syncRuleFile False rulesDir targetDir) fs st = (r, st')"
  shows "errorSymlinks st \<le> errorSymlinks st'"
  by (rule forEach_invariant[OF assms, where P = "\<lambda>u. errorSymlinks st \<le> errorSymlinks u"])
     (auto dest: errorSymlinks_syncRuleFile)

lemma forEach_syncRuleFile_linked:
  assumes "forEach (syncRuleFile False rulesDir targetDir) fs st = (None, st')"
    and "errorSymlinks st' = errorSymlinks st" and "f \<in> set fs"
  shows "linked (disk st') f (targetOf rulesDir targetDir f)"
  using assms
proof (induction fs arbitrary: st)
  case Nil
  then show ?case by simp
next
  case (Cons x xs)
  obtain r1 st1 where step: "syncRuleFile False rulesDir targetDir x st = (r1, st1)"
    by fastforce
  with Cons.prems(1) have r1: "r1 = None"
    and rest: "forEach (syncRuleFile False rulesDir targetDir) xs st1 = (None, st')"
    by (cases r1; auto)+
  from step have le1: "errorSymlinks st \<le> errorSymlinks st1"
    by (rule errorSymlinks_syncRuleFile)
  from rest have le2: "errorSymlinks st1 \<le> errorSymlinks st'"
    by (rule errorSymlinks_forEach_syncRuleFile)
  from le1 le2 Cons.prems(2) have e1: "errorSymlinks st1 = errorSymlinks st"
    and e2: "errorSymlinks st' = errorSymlinks st1" by auto
  show ?case
  proof (cases "f \<in> set xs")
    case True
    from Cons.IH[OF rest e2 True] show ?thesis .
  next
    case False
    with Cons.prems(3) have "f = x" by simp
    with step r1 e1 have "linked (disk st1) f (targetOf rulesDir targetDir f)"
      by (auto intro: syncRuleFile_linked)
    moreover from rest have "kept st1 st'"
      by (rule forEach_kept) (rule syncRuleFile_kept)
    ultimately show ?thesis by (auto simp: kept_def intro: linked_mono)
  qed
qed

lemma syncRuleFile_skip:
  assumes "existsSync (disk st) (targetOf rulesDir targetDir f)"
  shows "syncRuleFile False rulesDir targetDir f st
           = (None, st\<lparr>skippedSymlinks := skippedSymlinks st + 1\<rparr>)"
proof -
  from assms have "existsSync (disk st) (butlast (targetOf rulesDir targetDir f))"
    by (rule existsSync_parent)
  then have "ensureDir (butlast (targetOf rulesDir targetDir f)) st = (None, st)"
    by (rule ensureDir_present)
  with assms show ?thesis by (simp add: syncRuleFile_alt linkUnlessPresent_def)
qed

lemma forEach_syncRuleFile_skip:
  assumes "\<forall>f \<in> set fs. existsSync (disk st) (targetOf rulesDir targetDir f)"
  shows "forEach (syncRuleFile False rulesDir targetDir) fs st
           = (None, st\<lparr>skippedSymlinks := skippedSymlinks st + length fs\<rparr>)"
  using assms
proof (induction fs arbitrary: st)
  case Nil
  then show ?case by simp
next
  case (Cons x xs)
  from Cons.prems have "syncRuleFile False rulesDir targetDir x st
           = (None, st\<lparr>skippedSymlinks := skippedSymlinks st + 1\<rparr>)"
    by (intro syncRuleFile_skip) simp
  moreover have "forEach (syncRuleFile False rulesDir targetDir) xs
      (st\<lparr>skippedSymlinks := skippedSymlinks st + 1\<rparr>)
    = (None, st\<lparr>skippedSymlinks := skippedSymlinks st + 1\<rparr>
         \<lparr>skippedSymlinks := skippedSymlinks (st\<lparr>skippedSymlinks := skippedSymlinks st + 1\<rparr>)
             + length xs\<rparr>)"
    using Cons.prems by (intro Cons.IH) simp
  ultimately show ?case by simp
qed

text \<open>
  The paths \<^verbatim>\<open>getAllFiles\<close> returns are the entries below the directory that are no
  directory and are reached through directories only. Entries that are added to the file
  system later can only add to them.
\<close>

definition leaves :: "node \<Rightarrow> path set" where
  "leaves nd = {q. q \<noteq> [] \<and> (\<exists>x. get nd q = Some x \<and> ftype_of x \<noteq> Directory)}"

lemma forEach_collect:
  assumes "forEach body xs u = (None, u')"
    and "\<And>x v v'. x \<in> set xs \<Longrightarrow> body x v = (None, v') \<Longrightarrow> set v' = set v \<union> F x"
  shows "set u' = set u \<union> (\<Union>x \<in> set xs. F x)"
  using assms
proof (induction xs arbitrary: u)
  case Nil
  then show ?case by simp
next
  case (Cons x xs)
  obtain r1 u1 where step: "body x u = (r1, u1)" by fastforce
  with Cons.prems(1) have r1: "r1 = None" and rest: "forEach body xs u1 = (None, u')"
    by (cases r1; auto)+
  from Cons.prems(2)[of x u u1] step r1 have 1: "set u1 = set u \<union> F x" by simp
  have "set u' = set u1 \<union> (\<Union>x \<in> set xs. F x)"
  proof (rule Cons.IH[OF rest])
    fix y v v'
    assume "y \<in> set xs" and "body y v = (None, v')"
    then show "set v' = set v \<union> F y" using Cons.prems(2)[of y v v'] by simp
  qed
  with 1 show ?case by auto
qed

lemma leaves_leaf: "ftype_of nd \<noteq> Directory \<Longrightarrow> leaves nd = {}"
  by (cases nd) (auto simp: leaves_def neq_Nil_conv)

lemma leaves_Dir:
  "leaves (Dir r w es) =
     (\<Union>(n, ch) \<in> set (AList.clearjunk es).
        if ftype_of ch = Directory then (\<lambda>q. n # q) ` leaves ch else {[n]})"
  (is "?L = ?R")
proof (rule set_eqI)
  fix q
  show "q \<in> ?L \<longleftrightarrow> q \<in> ?R"
  proof
    assume "q \<in> ?L"
    then obtain n q' ch x where q: "q = n # q'" and m: "map_of es n = Some ch"
      and g: "get ch q' = Some x" and x: "ftype_of x \<noteq> Directory"
      by (auto simp: leaves_def neq_Nil_conv split: option.splits)
    from m have mem: "(n, ch) \<in> set (AList.clearjunk es)"
      by (metis map_of_SomeD map_of_clearjunk)
    show "q \<in> ?R"
    proof (cases "ftype_of ch = Directory")
      case True
      with g x have "q' \<noteq> []" by auto
      with g x have "q' \<in> leaves ch" by (auto simp: leaves_def)
      with mem True q show ?thesis by force
    next
      case False
      with g have "q' = []" by (cases ch; cases q') auto
      with mem False q show ?thesis by force
    qed
  next
    assume "q \<in> ?R"
    then obtain n ch where mem: "(n, ch) \<in> set (AList.clearjunk es)"
      and q: "q \<in> (if ftype_of ch = Directory then (\<lambda>q. n # q) ` leaves ch else {[n]})"
      by auto
    from mem have m: "map_of es n = Some ch" by (rule clearjunk_entry)
    with q show "q \<in> ?L"
      by (auto simp: leaves_def split: if_splits)
  qed
qed

lemma traverse_leaves:
  "traverse fs dir files = (None, files') \<Longrightarrow> realpath fs dir = Inr rp
    \<Longrightarrow> get fs rp = Some nd
    \<Longrightarrow> set files' = set files \<union> (\<lambda>q. dir @ q) ` leaves nd"
proof (induction fs dir files arbitrary: files' rp nd rule: traverse.induct)
  case (1 fs currentDir files)
  let ?body = "\<lambda>entry files.
               let fullPath = path_join currentDir [dirent_name entry]
               in if isDirectory entry then traverse fs fullPath files
                  else (None, files @ [fullPath])"
  let ?F = "\<lambda>(n, ch). (\<lambda>q. currentDir @ q) `
      (if ftype_of ch = Directory then (\<lambda>q. n # q) ` leaves ch else {[n]})"
  from "1.prems" obtain r w es where nd: "nd = Dir r w es"
    and entries: "readdirSync fs currentDir
        = Inr (map (\<lambda>(n, nd). Dirent n (ftype_of nd)) (AList.clearjunk es))"
    by (cases nd) (auto simp: traverse.simps readdirSync_def split: if_splits)
  with "1.prems"(1) have "forEach ?body
      (map (\<lambda>(n, nd). Dirent n (ftype_of nd)) (AList.clearjunk es)) files = (None, files')"
    by (simp add: traverse.simps)
  then have loop: "forEach (\<lambda>x. ?body (case x of (n, nd) \<Rightarrow> Dirent n (ftype_of nd)))
      (AList.clearjunk es) files = (None, files')"
    by (simp add: forEach_map)
  have "set files' = set files \<union> (\<Union>x \<in> set (AList.clearjunk es). ?F x)"
  proof (rule forEach_collect[OF loop])
    fix x v v'
    assume x: "x \<in> set (AList.clearjunk es)"
      and step: "?body (case x of (n, nd) \<Rightarrow> Dirent n (ftype_of nd)) v = (None, v')"
    obtain n ch where xn: "x = (n, ch)" by (cases x)
    with x have m: "map_of es n = Some ch" by (auto dest: clearjunk_entry)
    show "set v' = set v \<union> ?F x"
    proof (cases "ftype_of ch = Directory")
      case True
      with step xn have t: "traverse fs (path_join currentDir [n]) v = (None, v')"
        by (simp add: isDirectory_def)
      have rp': "realpath fs (path_join currentDir [n]) = Inr (rp @ [n])"
        using "1.prems"(2,3) nd m True unfolding realpath_def path_join_def
        by (intro namei_snoc) auto
      have g': "get fs (rp @ [n]) = Some ch"
        using "1.prems"(3) nd m by (simp add: get_snoc)
      have mem: "Dirent n (ftype_of ch)
          \<in> set (map (\<lambda>(n, nd). Dirent n (ftype_of nd)) (AList.clearjunk es))"
        using x xn by force
      have "isDirectory (Dirent n (ftype_of ch))" using True by (simp add: isDirectory_def)
      from "1.IH"[OF entries mem _ this, of _ v v' "rp @ [n]" ch] t rp' g'
      have "set v' = set v \<union> (\<lambda>q. path_join currentDir [n] @ q) ` leaves ch" by simp
      with True xn show ?thesis by (auto simp: path_join_def image_image)
    next
      case False
      with step xn show ?thesis by (auto simp: isDirectory_def path_join_def)
    qed
  qed
  moreover have "(\<lambda>q. currentDir @ q) ` leaves (Dir r w es)
      = (\<Union>x \<in> set (AList.clearjunk es). ?F x)"
    unfolding leaves_Dir image_UN by (rule SUP_cong) auto
  ultimately show ?case using nd by simp
qed

lemma getAllFiles_leaves:
  assumes "getAllFiles fs dir = Inr files"
  obtains rp nd where "realpath fs dir = Inr rp" and "get fs rp = Some nd"
    and "set files = (\<lambda>q. dir @ q) ` leaves nd"
proof -
  from assms have t: "traverse fs dir [] = (None, files)"
    by (auto simp: getAllFiles_def split: prod.splits option.splits)
  then obtain es where "readdirSync fs dir = Inr es"
    by (cases "readdirSync fs dir") (auto simp: traverse.simps)
  then obtain rp nd where rp: "realpath fs dir = Inr rp" and g: "get fs rp = Some nd"
    by (auto simp: readdirSync_def split: sum.splits option.splits)
  from traverse_leaves[OF t rp g] have "set files = (\<lambda>q. dir @ q) ` leaves nd" by simp
  with rp g show ?thesis by (rule that)
qed

lemma getAllFiles_mono:
  assumes "entries_kept a b" and "getAllFiles a dir = Inr fa" and "getAllFiles b dir = Inr fb"
  shows "set fa \<subseteq> set fb"
proof -
  from assms(2) obtain rp nda where rp: "realpath a dir = Inr rp" and ga: "get a rp = Some nda"
    and sa: "set fa = (\<lambda>q. dir @ q) ` leaves nda"
    by (rule getAllFiles_leaves)
  from assms(3) obtain rp' ndb where rp': "realpath b dir = Inr rp'" and gb: "get b rp' = Some ndb"
    and sb: "set fb = (\<lambda>q. dir @ q) ` leaves ndb"
    by (rule getAllFiles_leaves)
  from realpath_mono[OF assms(1) rp] rp' have eq: "rp' = rp" by simp
  have "leaves nda \<subseteq> leaves ndb"
  proof
    fix q
    assume "q \<in> leaves nda"
    then obtain x where q: "q \<noteq> []" and x: "get nda q = Some x" "ftype_of x \<noteq> Directory"
      by (auto simp: leaves_def)
    with ga have "get a (rp @ q) = Some x" by (simp add: get_append)
    with assms(1) obtain x' where "get b (rp @ q) = Some x'" and sh: "shape_of x' = shape_of x"
      unfolding entries_kept_def by blast
    with gb eq have "get ndb q = Some x'" by (simp add: get_append)
    moreover from sh x(2) have "ftype_of x' \<noteq> Directory" by (cases x; cases x') auto
    ultimately show "q \<in> leaves ndb" using q by (auto simp: leaves_def)
  qed
  with sa sb show ?thesis by auto
qed


text \<open>The test \<^verbatim>\<open>existsSync(p) && statSync(p).isDirectory()\<close> never throws.\<close>

lemma existsAsDirectory_iff:
  "existsAsDirectory fs p = Inr True
     \<longleftrightarrow> (\<exists>rp r w es. realpath fs p = Inr rp \<and> get fs rp = Some (Dir r w es))"
proof (cases "realpath fs p")
  case (Inl e)
  then show ?thesis by (simp add: existsAsDirectory_def existsSync_def)
next
  case (Inr rp)
  then obtain nd where "get fs rp = Some nd" by (auto dest: realpath_exists)
  with Inr show ?thesis
    by (cases nd) (simp_all add: existsAsDirectory_def existsSync_def statSync_def)
qed

lemma existsAsDirectory_total: "existsAsDirectory fs p \<noteq> Inl e"
proof (cases "realpath fs p")
  case (Inl e)
  then show ?thesis by (simp add: existsAsDirectory_def existsSync_def)
next
  case (Inr rp)
  then obtain nd where "get fs rp = Some nd" by (auto dest: realpath_exists)
  with Inr show ?thesis
    by (simp add: existsAsDirectory_def existsSync_def statSync_def)
qed

lemma existsAsDirectory_mono:
  assumes "entries_kept a b" and "existsAsDirectory a p = Inr True"
  shows "existsAsDirectory b p = Inr True"
proof -
  from assms(2) obtain rp r w es where "realpath a p = Inr rp" "get a rp = Some (Dir r w es)"
    by (auto simp: existsAsDirectory_iff)
  moreover from this assms(1) have "realpath b p = Inr rp" by (auto dest: realpath_mono)
  moreover from calculation assms(1) obtain es' where "get b rp = Some (Dir r w es')"
    by (auto elim: entries_kept_Dir)
  ultimately show ?thesis unfolding existsAsDirectory_iff by blast
qed

lemma existsAsDirectory_parent:
  assumes "existsAsDirectory fs (p @ [c]) = Inr True"
  shows "existsAsDirectory fs p = Inr True"
proof -
  from assms have "existsSync fs (p @ [c])"
    by (auto simp: existsAsDirectory_iff existsSync_def)
  then obtain w rp nd where "lookup_entry fs (p @ [c]) = Inr (w, rp, Some nd)"
    by (rule existsSync_entry) simp
  then show ?thesis
    by (auto simp: lookup_entry_def existsAsDirectory_iff
        split: sum.splits option.splits node.splits)
qed

text \<open>
  After a run without \<^verbatim>\<open>--force\<close> that counted no failure, every project that had a rule
  directory has its mirror, and every rule file found then is linked.
\<close>

lemma errorSymlinks_syncProject:
  assumes "syncProject False rootDir d st = (r, st')"
  shows "errorSymlinks st \<le> errorSymlinks st'"
  using assms
proof (cases rule: syncProject_cases)
  case (files st1 ruleFiles)
  from files(4) have "errorSymlinks (st1\<lparr>totalRuleFiles := totalRuleFiles st1 + length ruleFiles\<rparr>)
      \<le> errorSymlinks st'"
    by (rule errorSymlinks_forEach_syncRuleFile)
  with files(2) show ?thesis by (auto dest: counters_ensureDir)
qed (auto dest: counters_ensureDir)

lemma errorSymlinks_forEach_syncProject:
  assumes "forEach (syncProject False rootDir) ds st = (r, st')"
  shows "errorSymlinks st \<le> errorSymlinks st'"
  by (rule forEach_invariant[OF assms, where P = "\<lambda>u. errorSymlinks st \<le> errorSymlinks u"])
     (auto dest: errorSymlinks_syncProject)

lemma syncProject_covered:
  assumes run: "syncProject False rootDir d st = (None, st')"
    and nofail: "errorSymlinks st' = errorSymlinks st"
    and k: "entries_kept fs0 (disk st)"
    and rules: "existsAsDirectory fs0 (rootDir @ [d, ''.cursor'', ''rules'']) = Inr True"
  shows "existsSync (disk st') (rootDir @ [''.cursor'', ''rules'', d])
       \<and> (\<forall>files0 f. getAllFiles fs0 (rootDir @ [d, ''.cursor'', ''rules'']) = Inr files0
            \<longrightarrow> f \<in> set files0
            \<longrightarrow> linked (disk st') f
                  (targetOf (rootDir @ [d, ''.cursor'', ''rules''])
                     (rootDir @ [''.cursor'', ''rules'', d]) f))"
proof -
  let ?rulesDir = "rootDir @ [d, ''.cursor'', ''rules'']"
  let ?mirror = "rootDir @ [''.cursor'', ''rules'', d]"
  from k rules have r1: "existsAsDirectory (disk st) ?rulesDir = Inr True"
    by (rule existsAsDirectory_mono)
  then have c1: "existsAsDirectory (disk st) (rootDir @ [d, ''.cursor'']) = Inr True"
    using existsAsDirectory_parent[of "disk st" "rootDir @ [d, ''.cursor'']" "''rules''"] by simp
  from run show ?thesis
  proof (cases rule: syncProject_cases)
    case no_rules
    with r1 c1 show ?thesis by simp
  next
    case (files st1 ruleFiles)
    let ?st1 = "st1\<lparr>totalRuleFiles := totalRuleFiles st1 + length ruleFiles\<rparr>"
    from files(2) have k1: "kept st st1" by (rule ensureDir_kept)
    from files(4) have k2: "kept ?st1 st'" by (rule forEach_kept) (rule syncRuleFile_kept)
    from files(2) have "existsSync (disk st1) ?mirror" by (rule ensureDir_exists)
    with k2 have m: "existsSync (disk st') ?mirror"
      by (auto simp: kept_def dest: existsSync_mono)
    from files(2) nofail have e: "errorSymlinks st' = errorSymlinks ?st1"
      by (auto dest: counters_ensureDir)
    have "linked (disk st') f (targetOf ?rulesDir ?mirror f)"
      if "getAllFiles fs0 ?rulesDir = Inr files0" and "f \<in> set files0" for files0 f
    proof -
      from k k1 have "entries_kept fs0 (disk st1)"
        by (auto simp: kept_def intro: entries_kept_trans)
      from getAllFiles_mono[OF this that(1) files(3)] that(2) have "f \<in> set ruleFiles" by auto
      with files(4) e show ?thesis by (intro forEach_syncRuleFile_linked)
    qed
    with m show ?thesis by blast
  qed simp_all
qed

lemma forEach_syncProject_covered:
  assumes "forEach (syncProject False rootDir) ds st = (None, st')"
    and "errorSymlinks st' = errorSymlinks st"
    and "entries_kept fs0 (disk st)" and "d \<in> set ds"
    and "existsAsDirectory fs0 (rootDir @ [d, ''.cursor'', ''rules'']) = Inr True"
  shows "existsSync (disk st') (rootDir @ [''.cursor'', ''rules'', d])
       \<and> (\<forall>files0 f. getAllFiles fs0 (rootDir @ [d, ''.cursor'', ''rules'']) = Inr files0
            \<longrightarrow> f \<in> set files0
            \<longrightarrow> linked (disk st') f
                  (targetOf (rootDir @ [d, ''.cursor'', ''rules''])
                     (rootDir @ [''.cursor'', ''rules'', d]) f))"
  using assms(1-4)
proof (induction ds arbitrary: st)
  case Nil
  then show ?case by simp
next
  case (Cons x xs)
  obtain r1 st1 where step: "syncProject False rootDir x st = (r1, st1)" by fastforce
  with Cons.prems(1) have r1: "r1 = None"
    and rest: "forEach (syncProject False rootDir) xs st1 = (None, st')"
    by (cases r1; auto)+
  from step have le1: "errorSymlinks st \<le> errorSymlinks st1" by (rule errorSymlinks_syncProject)
  from rest have le2: "errorSymlinks st1 \<le> errorSymlinks st'"
    by (rule errorSymlinks_forEach_syncProject)
  from le1 le2 Cons.prems(2) have e1: "errorSymlinks st1 = errorSymlinks st"
    and e2: "errorSymlinks st' = errorSymlinks st1" by auto
  from step have k1: "kept st st1" by (rule syncProject_kept)
  from rest have k2: "kept st1 st'" by (rule forEach_kept) (rule syncProject_kept)
  show ?case
  proof (cases "d \<in> set xs")
    case True
    from Cons.prems(3) k1 have "entries_kept fs0 (disk st1)"
      by (auto simp: kept_def intro: entries_kept_trans)
    from Cons.IH[OF rest e2 this True] show ?thesis .
  next
    case False
    with Cons.prems(4) have "x = d" by simp
    with step r1 have "syncProject False rootDir d st = (None, st1)" by simp
    from syncProject_covered[OF this e1 Cons.prems(3) assms(5)] k2 show ?thesis
      by (auto simp: kept_def dest: existsSync_mono intro: linked_mono)
  qed
qed

text \<open>
  When every target path exists, a project is passed over with nothing but skips.
\<close>

lemma syncProject_settled:
  assumes rules: "existsAsDirectory (disk st) (rootDir @ [d, ''.cursor'', ''rules'']) = Inr True
      \<longrightarrow> existsSync (disk st) (rootDir @ [''.cursor'', ''rules'', d])
         \<and> (\<exists>files. getAllFiles (disk st) (rootDir @ [d, ''.cursor'', ''rules'']) = Inr files
              \<and> (\<forall>f \<in> set files. existsSync (disk st)
                    (targetOf (rootDir @ [d, ''.cursor'', ''rules''])
                       (rootDir @ [''.cursor'', ''rules'', d]) f)))"
  shows "\<exists>n. syncProject False rootDir d st
           = (None, st\<lparr>totalRuleFiles := totalRuleFiles st + n,
                       skippedSymlinks := skippedSymlinks st + n\<rparr>)"
proof (cases "existsAsDirectory (disk st) (rootDir @ [d, ''.cursor'', ''rules'']) = Inr True")
  case False
  obtain r st' where run: "syncProject False rootDir d st = (r, st')" by fastforce
  then have "r = None \<and> st' = st"
  proof (cases rule: syncProject_cases)
  qed (use False in \<open>auto simp: existsAsDirectory_total\<close>)
  with run show ?thesis by (intro exI[of _ 0]) simp
next
  case True
  let ?rulesDir = "rootDir @ [d, ''.cursor'', ''rules'']"
  let ?mirror = "rootDir @ [''.cursor'', ''rules'', d]"
  from True have c1: "existsAsDirectory (disk st) (rootDir @ [d, ''.cursor'']) = Inr True"
    using existsAsDirectory_parent[of "disk st" "rootDir @ [d, ''.cursor'']" "''rules''"] by simp
  from True rules obtain files where m: "existsSync (disk st) ?mirror"
    and g: "getAllFiles (disk st) ?rulesDir = Inr files"
    and t: "\<forall>f \<in> set files. existsSync (disk st) (targetOf ?rulesDir ?mirror f)"
    by blast
  let ?st = "st\<lparr>totalRuleFiles := totalRuleFiles st + length files\<rparr>"
  from t have "forEach (syncRuleFile False ?rulesDir ?mirror) files ?st
      = (None, ?st\<lparr>skippedSymlinks := skippedSymlinks ?st + length files\<rparr>)"
    by (intro forEach_syncRuleFile_skip) simp
  with True c1 m g have "syncProject False rootDir d st
      = (None, st\<lparr>totalRuleFiles := totalRuleFiles st + length files,
                  skippedSymlinks := skippedSymlinks st + length files\<rparr>)"
    by (simp add: syncProject_def Let_def path_join_def)
  then show ?thesis by blast
qed


lemma forEach_syncProject_settled:
  assumes "\<forall>d \<in> set ds.
      existsAsDirectory (disk st) (rootDir @ [d, ''.cursor'', ''rules'']) = Inr True
      \<longrightarrow> existsSync (disk st) (rootDir @ [''.cursor'', ''rules'', d])
         \<and> (\<exists>files. getAllFiles (disk st) (rootDir @ [d, ''.cursor'', ''rules'']) = Inr files
              \<and> (\<forall>f \<in> set files. existsSync (disk st)
                    (targetOf (rootDir @ [d, ''.cursor'', ''rules''])
                       (rootDir @ [''.cursor'', ''rules'', d]) f)))"
  shows "\<exists>n. forEach (syncProject False rootDir) ds st
           = (None, st\<lparr>totalRuleFiles := totalRuleFiles st + n,
                       skippedSymlinks := skippedSymlinks st + n\<rparr>)"
  using assms
proof (induction ds arbitrary: st)
  case Nil
  then show ?case by (intro exI[of _ 0]) simp
next
  case (Cons x xs)
  from Cons.prems obtain n1 where
    step: "syncProject False rootDir x st
           = (None, st\<lparr>totalRuleFiles := totalRuleFiles st + n1,
                       skippedSymlinks := skippedSymlinks st + n1\<rparr>)"
    using syncProject_settled[of st rootDir x] by auto
  let ?st1 = "st\<lparr>totalRuleFiles := totalRuleFiles st + n1,
                 skippedSymlinks := skippedSymlinks st + n1\<rparr>"
  from Cons.prems obtain n2 where
    rest: "forEach (syncProject False rootDir) xs ?st1
           = (None, ?st1\<lparr>totalRuleFiles := totalRuleFiles ?st1 + n2,
                         skippedSymlinks := skippedSymlinks ?st1 + n2\<rparr>)"
    using Cons.IH[of ?st1] by auto
  from step rest show ?case
    by (intro exI[of _ "n1 + n2"]) (simp add: add.assoc)
qed

lemma synchronise_covered:
  assumes first: "synchronise False rootDir st0 = (Inr dirs, st1)"
    and nofail: "errorSymlinks st1 = errorSymlinks st0"
  shows "existsSync (disk st1) (rootDir @ [''.cursor'', ''rules''])"
    and "\<And>d. d \<in> set dirs
           \<Longrightarrow> existsAsDirectory (disk st0) (rootDir @ [d, ''.cursor'', ''rules'']) = Inr True
           \<Longrightarrow> existsSync (disk st1) (rootDir @ [''.cursor'', ''rules'', d])"
    and "\<And>d files0 f. d \<in> set dirs
           \<Longrightarrow> existsAsDirectory (disk st0) (rootDir @ [d, ''.cursor'', ''rules'']) = Inr True
           \<Longrightarrow> getAllFiles (disk st0) (rootDir @ [d, ''.cursor'', ''rules'']) = Inr files0
           \<Longrightarrow> f \<in> set files0
           \<Longrightarrow> linked (disk st1) f
                 (targetOf (rootDir @ [d, ''.cursor'', ''rules''])
                    (rootDir @ [''.cursor'', ''rules'', d]) f)"
proof -
  let ?root = "rootDir @ [''.cursor'', ''rules'']"
  obtain r0 s0 where e0: "ensureDir ?root st0 = (r0, s0)" by fastforce
  from first e0 have r0: "r0 = None"
    by (cases r0) (auto simp: synchronise_def Let_def path_join_def ensureDir_def[symmetric])
  from first e0 r0 have loop: "forEach (syncProject False rootDir) dirs s0 = (None, st1)"
    by (auto simp: synchronise_def Let_def path_join_def ensureDir_def[symmetric]
        split: sum.splits prod.splits option.splits)
  from e0 have "kept st0 s0" by (rule ensureDir_kept)
  then have ek0: "entries_kept (disk st0) (disk s0)" by (simp add: kept_def)
  from loop have k1: "kept s0 st1" by (rule forEach_kept) (rule syncProject_kept)
  from e0 r0 have "existsSync (disk s0) ?root" by (auto dest: ensureDir_exists)
  with k1 show "existsSync (disk st1) ?root"
    by (auto simp: kept_def dest: existsSync_mono)
  from e0 nofail have nf: "errorSymlinks st1 = errorSymlinks s0"
    by (auto dest: counters_ensureDir)
  note cov = forEach_syncProject_covered[OF loop nf ek0]
  show "existsSync (disk st1) (rootDir @ [''.cursor'', ''rules'', d])"
    if "d \<in> set dirs"
      and "existsAsDirectory (disk st0) (rootDir @ [d, ''.cursor'', ''rules'']) = Inr True" for d
    using cov[OF that] by blast
  show "linked (disk st1) f
          (targetOf (rootDir @ [d, ''.cursor'', ''rules''])
             (rootDir @ [''.cursor'', ''rules'', d]) f)"
    if "d \<in> set dirs"
      and "existsAsDirectory (disk st0) (rootDir @ [d, ''.cursor'', ''rules'']) = Inr True"
      and "getAllFiles (disk st0) (rootDir @ [d, ''.cursor'', ''rules'']) = Inr files0"
      and "f \<in> set files0" for d files0 f
    using cov[OF that(1,2)] that(3,4) by blast
qed

lemma synchronise_settled:
  assumes "existsSync (disk st) (rootDir @ [''.cursor'', ''rules''])"
    and "projectDirs (disk st) rootDir = Inr dirs"
    and "\<forall>d \<in> set dirs.
      existsAsDirectory (disk st) (rootDir @ [d, ''.cursor'', ''rules'']) = Inr True
      \<longrightarrow> existsSync (disk st) (rootDir @ [''.cursor'', ''rules'', d])
         \<and> (\<exists>files. getAllFiles (disk st) (rootDir @ [d, ''.cursor'', ''rules'']) = Inr files
              \<and> (\<forall>f \<in> set files. existsSync (disk st)
                    (targetOf (rootDir @ [d, ''.cursor'', ''rules''])
                       (rootDir @ [''.cursor'', ''rules'', d]) f)))"
  shows "\<exists>n. synchronise False rootDir st
           = (Inr dirs, st\<lparr>totalRuleFiles := totalRuleFiles st + n,
                           skippedSymlinks := skippedSymlinks st + n\<rparr>)"
proof -
  from forEach_syncProject_settled[OF assms(3)] obtain n where
    "forEach (syncProject False rootDir) dirs st
           = (None, st\<lparr>totalRuleFiles := totalRuleFiles st + n,
                       skippedSymlinks := skippedSymlinks st + n\<rparr>)"
    by blast
  with assms(1,2) have "synchronise False rootDir st
           = (Inr dirs, st\<lparr>totalRuleFiles := totalRuleFiles st + n,
                           skippedSymlinks := skippedSymlinks st + n\<rparr>)"
    by (simp add: synchronise_def Let_def path_join_def)
  then show ?thesis ..
qed

text \<open>
  Path resolution for a write finds the file that was written; \<^verbatim>\<open>writeFileSync\<close> either
  throws and leaves the file system as it is, or leaves a file at the path.
\<close>

lemma namei_creat_mono:
  "namei n True fs cur p = Inr rp \<Longrightarrow> entries_kept fs fs' \<Longrightarrow> get fs' rp = Some x
    \<Longrightarrow> ftype_of x \<noteq> SymbolicLink \<Longrightarrow> namei n False fs' cur p = Inr rp"
proof (induction n "True" fs cur p rule: namei.induct)
  case (1 n fs cur)
  then show ?case by simp
next
  case (2 n fs cur c cs)
  from "2.prems"(1) obtain r w es where d: "get fs cur = Some (Dir r w es)"
    by (auto split: option.splits node.splits)
  from "2.prems"(2) d obtain es' where d': "get fs' cur = Some (Dir r w es')"
    by (rule entries_kept_Dir)
  show ?case
  proof (cases "map_of es c")
    case None
    with "2.prems"(1) d have rp: "rp = cur @ [c]" and cs: "cs = []"
      by (auto split: if_splits)
    from "2.prems"(3) rp d' have "map_of es' c = Some x" by (simp add: get_snoc)
    with d' cs rp "2.prems"(4) show ?thesis by (cases x) auto
  next
    case (Some nd)
    from Some d have gc: "get fs (cur @ [c]) = Some nd" by (simp add: get_snoc)
    with "2.prems"(2) obtain nd' where
      gc': "get fs' (cur @ [c]) = Some nd'" and sh: "shape_of nd' = shape_of nd"
      unfolding entries_kept_def by blast
    from gc' d' have m': "map_of es' c = Some nd'" by (simp add: get_snoc)
    show ?thesis
    proof (cases nd)
      case (File fr fw s)
      with sh obtain s' where nd': "nd' = File fr fw s'" by (cases nd') auto
      from "2.prems"(1) d Some File have res: "namei n True fs (cur @ [c]) cs = Inr rp" by simp
      from "2.hyps"(1)[OF d refl Some File res "2.prems"(2,3,4)] d' m' nd'
      show ?thesis by simp
    next
      case (Dir r0 w0 es0)
      with sh obtain es0' where nd': "nd' = Dir r0 w0 es0'" by (cases nd') auto
      from "2.prems"(1) d Some Dir have res: "namei n True fs (cur @ [c]) cs = Inr rp" by simp
      from "2.hyps"(3)[OF d refl Some Dir res "2.prems"(2,3,4)] d' m' nd'
      show ?thesis by simp
    next
      case (Symlink t)
      with sh have nd': "nd' = Symlink t" by (cases nd') auto
      from "2.prems"(1) d Some Symlink obtain k where
        k: "n = Suc k" and res: "namei k True fs [] (t @ cs) = Inr rp"
        by (cases n) auto
      from "2.hyps"(2)[OF d refl Some Symlink k res "2.prems"(2,3,4)] d' m' nd' k
      show ?thesis by simp
    qed
  qed
qed

lemma fs_writeFile_failure: "fs_writeFile fs p data = (Some e, fs') \<Longrightarrow> fs' = fs"
  by (auto simp: fs_writeFile_def split: sum.splits option.splits node.splits if_splits)

lemma fs_writeFile_success:
  assumes "fs_writeFile fs p data = (None, fs')"
  shows "existsSync fs' p"
proof -
  from assms obtain rp where n: "namei SYMLOOP_MAX True fs [] p = Inr rp"
    by (auto simp: fs_writeFile_def split: sum.splits)
  from assms have ek: "entries_kept fs fs'" by (rule fs_writeFile_kept)
  have "\<exists>r w. get fs' rp = Some (File r w data)"
  proof (cases "get fs rp")
    case None
    with assms n have fs': "fs' = put rp (File True True data) fs"
      and "\<exists>r w es. get fs (butlast rp) = Some (Dir r w es)"
      by (auto simp: fs_writeFile_def split: option.splits node.splits if_splits)
    then obtain r w es where par: "get fs (butlast rp) = Some (Dir r w es)" by blast
    from None have "rp \<noteq> []" by (cases rp) auto
    then have "get fs' rp = Some (File True True data)"
      unfolding fs' using par by (rule get_put_new)
    then show ?thesis by blast
  next
    case (Some x)
    with assms n obtain r w c where x: "x = File r w c"
      and fs': "fs' = put rp (File r w data) fs"
      by (auto simp: fs_writeFile_def split: option.splits node.splits if_splits)
    from Some x have "get fs rp = Some (File r w c)" by simp
    then have "get fs' rp = Some (File r w data)"
      unfolding fs' by (rule get_put_self)
    then show ?thesis by blast
  qed
  then obtain r w where "get fs' rp = Some (File r w data)" by blast
  with n ek have "realpath fs' p = Inr rp"
    unfolding realpath_def by (rule namei_creat_mono) simp
  then show ?thesis by (simp add: existsSync_def)
qed

text \<open>\<^verbatim>\<open>createVSCodeSettings\<close> makes at most one write, and counts nothing.\<close>

lemma createVSCodeSettings_cases:
  assumes "createVSCodeSettings js rootDir st = (r, st')"
  obtains
    (unwritten) q where "ensureDir (rootDir @ [''.vscode'']) st = (q, st')"
  | (written) st1 data q where "ensureDir (rootDir @ [''.vscode'']) st = (None, st1)"
      and "writeFileSync (rootDir @ [''.vscode'', ''settings.json'']) data st1 = (q, st')"
proof -
  obtain r1 st1 where e: "ensureDir (rootDir @ [''.vscode'']) st = (r1, st1)" by fastforce
  show ?thesis
  proof (cases r1)
    case (Some e1)
    with assms e have "st' = st1"
      by (simp add: createVSCodeSettings_def Let_def path_join_def ensureDir_def[symmetric])
    with e show ?thesis by (auto intro: unwritten)
  next
    case None
    with assms e show ?thesis
      by (auto simp: createVSCodeSettings_def Let_def path_join_def ensureDir_def[symmetric]
          split: if_splits sum.splits prod.splits option.splits
          intro: unwritten written[of st1])
  qed
qed

lemma counters_writeFileSync:
  "writeFileSync p data st = (r, st') \<Longrightarrow>
     errorSymlinks st' = errorSymlinks st \<and> skippedSymlinks st' = skippedSymlinks st
     \<and> createdSymlinks st' = createdSymlinks st \<and> totalRuleFiles st' = totalRuleFiles st"
  by (auto simp: writeFileSync_def split: prod.splits)

lemma counters_createVSCodeSettings:
  assumes "createVSCodeSettings js rootDir st = (r, st')"
  shows "errorSymlinks st' = errorSymlinks st \<and> skippedSymlinks st' = skippedSymlinks st
     \<and> createdSymlinks st' = createdSymlinks st \<and> totalRuleFiles st' = totalRuleFiles st"
  using assms
  by (cases rule: createVSCodeSettings_cases)
     (auto dest!: counters_ensureDir counters_writeFileSync)

text \<open>
  Where \<^verbatim>\<open>.vscode\<close> exists, \<open>createVSCodeSettings\<close> throws nothing. \<open>settingsText\<close> is the
  text it decides to write, if any; the decision depends on the file system only.
\<close>

definition settingsText :: "runtime \<Rightarrow> node \<Rightarrow> path \<Rightarrow> string option" where
  "settingsText js fs settingsPath =
     (if existsSync fs settingsPath then
        (case readFileSync fs settingsPath of
           Inl err \<Rightarrow> None
         | Inr existingContent \<Rightarrow>
             (let existingSettings =
                    (if trim js existingContent \<noteq> [] then
                       (case JSON_parse js existingContent of
                          Some v \<Rightarrow> v
                        | None \<Rightarrow> JObject [])
                     else JObject [])
              in case getProperty existingSettings ''eslint.workingDirectories'' of
                   Inl err \<Rightarrow> None
                 | Inr v \<Rightarrow>
                     if truthy v then None
                     else Some (JSON_stringify js (spread existingSettings eslintConfig))))
      else Some (JSON_stringify js eslintConfig))"

lemma createVSCodeSettings_alt:
  assumes "existsSync (disk st) (rootDir @ [''.vscode''])"
  shows "createVSCodeSettings js rootDir st =
     (case settingsText js (disk st) (rootDir @ [''.vscode'', ''settings.json'']) of
        None \<Rightarrow> (Inr False, st)
      | Some data \<Rightarrow>
          (case writeFileSync (rootDir @ [''.vscode'', ''settings.json'']) data st of
             (Some err, st2) \<Rightarrow> (Inr False, st2)
           | (None, st2) \<Rightarrow> (Inr True, st2)))"
  using assms
  unfolding createVSCodeSettings_def settingsText_def Let_def path_join_def
  by (simp split: sum.split)

lemma createVSCodeSettings_present:
  assumes "ensureDir (rootDir @ [''.vscode'']) st = (None, st1)"
  shows "createVSCodeSettings js rootDir st = createVSCodeSettings js rootDir st1"
proof -
  from assms have "existsSync (disk st1) (rootDir @ [''.vscode''])" by (rule ensureDir_exists)
  then have "ensureDir (rootDir @ [''.vscode'']) st1 = (None, st1)" by (rule ensureDir_present)
  with assms show ?thesis
    by (simp add: createVSCodeSettings_def Let_def path_join_def ensureDir_def[symmetric])
qed

lemma createVSCodeSettings_returns:
  assumes "existsSync (disk st) (rootDir @ [''.vscode''])"
  shows "\<exists>u. fst (createVSCodeSettings js rootDir st) = Inr u"
  unfolding createVSCodeSettings_alt[OF assms]
  by (auto split: option.splits prod.splits)

lemma createVSCodeSettings_determined:
  assumes "disk t = disk s" and "existsSync (disk s) (rootDir @ [''.vscode''])"
  shows "fst (createVSCodeSettings js rootDir t) = fst (createVSCodeSettings js rootDir s)"
proof -
  from assms have t: "existsSync (disk t) (rootDir @ [''.vscode''])" by simp
  show ?thesis
    unfolding createVSCodeSettings_alt[OF t] createVSCodeSettings_alt[OF assms(2)] assms(1)
    by (simp add: writeFileSync_def assms(1) split: option.split prod.split)
qed

lemma createVSCodeSettings_unchanged:
  assumes "createVSCodeSettings js rootDir st = (Inr False, st')"
    and "existsSync (disk st) (rootDir @ [''.vscode''])"
  shows "disk st' = disk st"
  using assms(1) unfolding createVSCodeSettings_alt[OF assms(2)]
  by (auto simp: writeFileSync_def split: option.splits prod.splits dest: fs_writeFile_failure)

lemma createVSCodeSettings_written:
  assumes "createVSCodeSettings js rootDir st = (Inr True, st')"
    and "existsSync (disk st) (rootDir @ [''.vscode''])"
  shows "existsSync (disk st') (rootDir @ [''.vscode'', ''settings.json''])"
  using assms(1) unfolding createVSCodeSettings_alt[OF assms(2)]
  by (auto simp: writeFileSync_def split: option.splits prod.splits dest: fs_writeFile_success)

lemma createVSCodeSettings_configured:
  assumes "existsSync (disk st) (rootDir @ [''.vscode'', ''settings.json''])"
    and "\<forall>content. readFileSync (disk st) (rootDir @ [''.vscode'', ''settings.json'']) = Inr content
          \<longrightarrow> trim js content \<noteq> []
              \<and> (\<exists>parsed v. JSON_parse js content = Some parsed
                    \<and> getProperty parsed ''eslint.workingDirectories'' = Inr v \<and> truthy v)"
  shows "createVSCodeSettings js rootDir st = (Inr False, st)"
proof -
  from assms(1)
  have "existsSync (disk st) (butlast (rootDir @ [''.vscode'', ''settings.json'']))"
    by (rule existsSync_parent)
  then have dir: "existsSync (disk st) (rootDir @ [''.vscode''])" by (simp add: butlast_append)
  have "settingsText js (disk st) (rootDir @ [''.vscode'', ''settings.json'']) = None"
  proof (cases "readFileSync (disk st) (rootDir @ [''.vscode'', ''settings.json''])")
    case (Inl e)
    with assms(1) show ?thesis by (simp add: settingsText_def)
  next
    case (Inr content)
    with assms(2) obtain parsed v where "trim js content \<noteq> []"
      and "JSON_parse js content = Some parsed"
      and "getProperty parsed ''eslint.workingDirectories'' = Inr v" and "truthy v"
      by blast
    with Inr assms(1) show ?thesis by (simp add: settingsText_def)
  qed
  then show ?thesis unfolding createVSCodeSettings_alt[OF dir] by simp
qed


text \<open>
  C3, amended. Take a run without \<^verbatim>\<open>--force\<close> that ends normally and counts no failed
  link. Suppose that afterwards the same project directories are listed, that every rule
  directory found then was one before the run and holds no rule file that was not there
  before, and that every target which is a link to its rule file resolves. Then a second
  run without \<^verbatim>\<open>--force\<close> on the resulting file system ends normally with the same number of
  projects and counts every rule file as skipped, none as created or failed; its
  synchronisation (lines 65 to 175) leaves the file system as it is and makes no call that
  would change it. The settings step of the second run changes nothing either and reports
  no update: when the first run did not update the settings, because the step takes the
  same way on the same file system; when it did, provided the settings file it wrote, if
  it can be read, is not empty after \<^verbatim>\<open>trim\<close> and is parsed by \<^verbatim>\<open>JSON.parse\<close> to settings
  with a truthy \<^verbatim>\<open>eslint.workingDirectories\<close>. (\<^verbatim>\<open>JSON.parse\<close> and \<^verbatim>\<open>JSON.stringify\<close> are
  parameters of the model; of the real ones the proviso holds, since the text written is
  \<^verbatim>\<open>JSON.stringify\<close> of an object with that key.)
\<close>

theorem second_run_skips_every_file:
  assumes first: "run js False rootDir st0 = (Summary n updated, st1)"
    and sync: "synchronise False rootDir st0 = (Inr dirs, st)"
    and nofail: "errorSymlinks st1 = errorSymlinks st0"
    and projects: "projectDirs (disk st1) rootDir = Inr dirs"
    and rules: "\<forall>d \<in> set dirs.
        existsAsDirectory (disk st1) (rootDir @ [d, ''.cursor'', ''rules'']) = Inr True
        \<longrightarrow> existsAsDirectory (disk st0) (rootDir @ [d, ''.cursor'', ''rules'']) = Inr True
           \<and> (\<exists>files1 files0.
                 getAllFiles (disk st1) (rootDir @ [d, ''.cursor'', ''rules'']) = Inr files1
                 \<and> getAllFiles (disk st0) (rootDir @ [d, ''.cursor'', ''rules'']) = Inr files0
                 \<and> set files1 \<subseteq> set files0)"
    and resolve: "\<forall>d \<in> set dirs. \<forall>files1.
        getAllFiles (disk st1) (rootDir @ [d, ''.cursor'', ''rules'']) = Inr files1
        \<longrightarrow> (\<forall>f \<in> set files1.
              readlinkSync (disk st1)
                (path_join (rootDir @ [''.cursor'', ''rules'', d])
                   (path_relative (rootDir @ [d, ''.cursor'', ''rules'']) f)) = Inr f
              \<longrightarrow> existsSync (disk st1)
                    (path_join (rootDir @ [''.cursor'', ''rules'', d])
                       (path_relative (rootDir @ [d, ''.cursor'', ''rules'']) f)))"
  shows "\<exists>k u st2.
      synchronise False rootDir (initial (disk st1))
        = (Inr dirs,
           \<lparr>disk = disk st1, calls = [], totalRuleFiles = k, createdSymlinks = 0,
            skippedSymlinks = k, errorSymlinks = 0\<rparr>)
      \<and> run js False rootDir (initial (disk st1)) = (Summary n u, st2)
      \<and> totalRuleFiles st2 = k \<and> createdSymlinks st2 = 0
      \<and> skippedSymlinks st2 = k \<and> errorSymlinks st2 = 0
      \<and> ((updated \<longrightarrow>
            (\<forall>content.
                readFileSync (disk st1) (rootDir @ [''.vscode'', ''settings.json'']) = Inr content
                \<longrightarrow> trim js content \<noteq> []
                    \<and> (\<exists>parsed v. JSON_parse js content = Some parsed
                          \<and> getProperty parsed ''eslint.workingDirectories'' = Inr v
                          \<and> truthy v)))
           \<longrightarrow> \<not> u \<and> disk st2 = disk st1)"
proof -
  let ?s = "initial (disk st1)"
  let ?vscode = "rootDir @ [''.vscode'']"
  let ?settings = "rootDir @ [''.vscode'', ''settings.json'']"
  have s: "disk ?s = disk st1" by (simp add: initial_def)
  from first sync have cfg: "createVSCodeSettings js rootDir st = (Inr updated, st1)"
    and n: "n = length dirs"
    by (auto simp: run_def split: sum.splits prod.splits)
  from cfg have ks: "entries_kept (disk st) (disk st1)" by (rule createVSCodeSettings_kept)
  from cfg nofail have nf: "errorSymlinks st = errorSymlinks st0"
    by (auto dest: counters_createVSCodeSettings)
  note cov = synchronise_covered[OF sync nf]
  from cov(1) ks have root: "existsSync (disk st1) (rootDir @ [''.cursor'', ''rules''])"
    by (rule existsSync_mono[rotated])
  have settled: "\<forall>d \<in> set dirs.
      existsAsDirectory (disk st1) (rootDir @ [d, ''.cursor'', ''rules'']) = Inr True
      \<longrightarrow> existsSync (disk st1) (rootDir @ [''.cursor'', ''rules'', d])
         \<and> (\<exists>files. getAllFiles (disk st1) (rootDir @ [d, ''.cursor'', ''rules'']) = Inr files
              \<and> (\<forall>f \<in> set files. existsSync (disk st1)
                    (targetOf (rootDir @ [d, ''.cursor'', ''rules''])
                       (rootDir @ [''.cursor'', ''rules'', d]) f)))"
  proof (intro ballI impI)
    fix d
    assume d: "d \<in> set dirs"
      and r1: "existsAsDirectory (disk st1) (rootDir @ [d, ''.cursor'', ''rules'']) = Inr True"
    let ?rulesDir = "rootDir @ [d, ''.cursor'', ''rules'']"
    let ?mirror = "rootDir @ [''.cursor'', ''rules'', d]"
    from rules d r1 obtain files1 files0 where
      r0: "existsAsDirectory (disk st0) ?rulesDir = Inr True"
      and f1: "getAllFiles (disk st1) ?rulesDir = Inr files1"
      and f0: "getAllFiles (disk st0) ?rulesDir = Inr files0"
      and sub: "set files1 \<subseteq> set files0"
      by blast
    from cov(2)[OF d r0] ks have m: "existsSync (disk st1) ?mirror"
      by (rule existsSync_mono[rotated])
    have "existsSync (disk st1) (targetOf ?rulesDir ?mirror f)" if "f \<in> set files1" for f
    proof -
      from that sub have "f \<in> set files0" by auto
      from cov(3)[OF d r0 f0 this] ks have "linked (disk st1) f (targetOf ?rulesDir ?mirror f)"
        by (rule linked_mono[rotated])
      with resolve d f1 that show ?thesis
        by (auto simp: linked_def targetOf_def path_join_def)
    qed
    with m f1 show "existsSync (disk st1) ?mirror
         \<and> (\<exists>files. getAllFiles (disk st1) ?rulesDir = Inr files
              \<and> (\<forall>f \<in> set files. existsSync (disk st1) (targetOf ?rulesDir ?mirror f)))"
      by blast
  qed
  from root projects settled have "\<exists>k. synchronise False rootDir ?s
           = (Inr dirs, ?s\<lparr>totalRuleFiles := totalRuleFiles ?s + k,
                           skippedSymlinks := skippedSymlinks ?s + k\<rparr>)"
    by (intro synchronise_settled) (simp_all only: s)
  then obtain k where
    s2: "synchronise False rootDir ?s
           = (Inr dirs,
              \<lparr>disk = disk st1, calls = [], totalRuleFiles = k, createdSymlinks = 0,
               skippedSymlinks = k, errorSymlinks = 0\<rparr>)"
    by (auto simp: initial_def)
  let ?t = "\<lparr>disk = disk st1, calls = [], totalRuleFiles = k, createdSymlinks = 0,
             skippedSymlinks = k, errorSymlinks = 0\<rparr>"
  have t: "disk ?t = disk st1" by simp

  obtain r1 sm where e: "ensureDir ?vscode st = (r1, sm)" by fastforce
  from cfg e have r1: "r1 = None"
    by (cases r1)
       (simp_all add: createVSCodeSettings_def Let_def path_join_def ensureDir_def[symmetric])
  from e r1 have vm: "existsSync (disk sm) ?vscode" by (auto dest: ensureDir_exists)
  from e r1 cfg have cm: "createVSCodeSettings js rootDir sm = (Inr updated, st1)"
    by (simp add: createVSCodeSettings_present[of rootDir st sm js])
  from cm have "entries_kept (disk sm) (disk st1)" by (rule createVSCodeSettings_kept)
  with vm have v1: "existsSync (disk st1) ?vscode" by (rule existsSync_mono[rotated])
  then have vt: "existsSync (disk ?t) ?vscode" by simp

  from createVSCodeSettings_returns[OF vt, of js] obtain u st2 where
    c2: "createVSCodeSettings js rootDir ?t = (Inr u, st2)"
    by (cases "createVSCodeSettings js rootDir ?t") auto
  from s2 c2 n have r2: "run js False rootDir ?s = (Summary n u, st2)"
    by (simp add: run_def)
  from counters_createVSCodeSettings[OF c2]
  have cnt: "totalRuleFiles st2 = k \<and> createdSymlinks st2 = 0
      \<and> skippedSymlinks st2 = k \<and> errorSymlinks st2 = 0"
    by simp
  have "\<not> u \<and> disk st2 = disk st1"
    if rb: "updated \<longrightarrow>
            (\<forall>content. readFileSync (disk st1) ?settings = Inr content
                \<longrightarrow> trim js content \<noteq> []
                    \<and> (\<exists>parsed v. JSON_parse js content = Some parsed
                          \<and> getProperty parsed ''eslint.workingDirectories'' = Inr v
                          \<and> truthy v))"
  proof (cases updated)
    case True
    with cm vm have "existsSync (disk st1) ?settings"
      by (auto intro: createVSCodeSettings_written)
    then have ex: "existsSync (disk ?t) ?settings" by simp
    from rb True have "\<forall>content. readFileSync (disk ?t) ?settings = Inr content
                \<longrightarrow> trim js content \<noteq> []
                    \<and> (\<exists>parsed v. JSON_parse js content = Some parsed
                          \<and> getProperty parsed ''eslint.workingDirectories'' = Inr v
                          \<and> truthy v)"
      by simp
    with ex have "createVSCodeSettings js rootDir ?t = (Inr False, ?t)"
      by (rule createVSCodeSettings_configured)
    with c2 show ?thesis by auto
  next
    case False
    with cm vm have d1: "disk st1 = disk sm"
      by (auto dest: createVSCodeSettings_unchanged)
    then have "disk ?t = disk sm" by simp
    from createVSCodeSettings_determined[OF this vm, of js] cm c2 False
    have u: "\<not> u" by simp
    with c2 vt have "disk st2 = disk ?t"
      by (auto dest: createVSCodeSettings_unchanged)
    with u show ?thesis by simp
  qed
  with s2 r2 cnt show ?thesis by blast
qed

text \<open>
  Two instances: on \<open>twoProjects\<close> the first run writes the settings file; on
  \<open>settingsDirectory\<close>, where \<^verbatim>\<open>settings.json\<close> is a directory, it cannot read it and
  leaves it alone, and so does the second.
\<close>

definition afterRun :: "node \<Rightarrow> state" where
  "afterRun fs = snd (run exampleRuntime False workspaceRoot (initial fs))"

definition settingsDirectory :: node where
  "settingsDirectory = Dir True True [(''ws'', Dir True True
     [(''projA'', Dir True True [(''.cursor'', Dir True True [(''rules'', Dir True True
          [(''x.mdc'', File True True ''a'')])])]),
      (''.vscode'', Dir True True [(''settings.json'', Dir True True [])])])]"


theorem second_run_skips_every_file_witness:
  "createdSymlinks (afterRun twoProjects) = 2
   \<and> (\<exists>k st2. run exampleRuntime False workspaceRoot (initial (disk (afterRun twoProjects)))
                  = (Summary 2 False, st2)
          \<and> disk st2 = disk (afterRun twoProjects)
          \<and> totalRuleFiles st2 = k \<and> createdSymlinks st2 = 0
          \<and> skippedSymlinks st2 = k \<and> errorSymlinks st2 = 0)
   \<and> readFileSync (disk (afterRun settingsDirectory)) [''ws'', ''.vscode'', ''settings.json'']
      = Inl EISDIR
   \<and> (\<exists>k st2. run exampleRuntime False workspaceRoot (initial (disk (afterRun settingsDirectory)))
                  = (Summary 1 False, st2)
          \<and> disk st2 = disk (afterRun settingsDirectory)
          \<and> totalRuleFiles st2 = k \<and> createdSymlinks st2 = 0
          \<and> skippedSymlinks st2 = k \<and> errorSymlinks st2 = 0)"
proof -
  let ?A = "[''ws'', ''projA'', ''.cursor'', ''rules'']"
  let ?B = "[''ws'', ''projB'', ''.cursor'', ''rules'']"
  let ?settings = "workspaceRoot @ [''.vscode'', ''settings.json'']"

  have first: "run exampleRuntime False workspaceRoot (initial twoProjects)
      = (Summary 2 True, afterRun twoProjects)"
    unfolding afterRun_def by code_simp
  have sync: "synchronise False workspaceRoot (initial twoProjects)
      = (Inr [''projA'', ''projB''], snd (synchronise False workspaceRoot (initial twoProjects)))"
    by code_simp
  have nofail: "errorSymlinks (afterRun twoProjects) = errorSymlinks (initial twoProjects)"
    unfolding afterRun_def by code_simp
  have projects: "projectDirs (disk (afterRun twoProjects)) workspaceRoot
      = Inr [''projA'', ''projB'']"
    unfolding afterRun_def by code_simp
  have a0: "existsAsDirectory (disk (initial twoProjects)) ?A = Inr True"
    and b0: "existsAsDirectory (disk (initial twoProjects)) ?B = Inr True"
    by code_simp+
  have fa0: "getAllFiles (disk (initial twoProjects)) ?A = Inr [?A @ [''x.mdc'']]"
    and fb0: "getAllFiles (disk (initial twoProjects)) ?B = Inr [?B @ [''sub'', ''y.mdc'']]"
    by code_simp+
  have fa1: "getAllFiles (disk (afterRun twoProjects)) ?A = Inr [?A @ [''x.mdc'']]"
    and fb1: "getAllFiles (disk (afterRun twoProjects)) ?B = Inr [?B @ [''sub'', ''y.mdc'']]"
    unfolding afterRun_def by code_simp+
  have ea: "existsSync (disk (afterRun twoProjects))
      (path_join [''ws'', ''.cursor'', ''rules'', ''projA'']
         (path_relative ?A (?A @ [''x.mdc''])))"
    and eb: "existsSync (disk (afterRun twoProjects))
      (path_join [''ws'', ''.cursor'', ''rules'', ''projB'']
         (path_relative ?B (?B @ [''sub'', ''y.mdc''])))"
    unfolding afterRun_def by code_simp+
  have rules: "\<forall>d \<in> set [''projA'', ''projB''].
        existsAsDirectory (disk (afterRun twoProjects))
          (workspaceRoot @ [d, ''.cursor'', ''rules'']) = Inr True
        \<longrightarrow> existsAsDirectory (disk (initial twoProjects))
              (workspaceRoot @ [d, ''.cursor'', ''rules'']) = Inr True
           \<and> (\<exists>files1 files0.
                 getAllFiles (disk (afterRun twoProjects))
                   (workspaceRoot @ [d, ''.cursor'', ''rules'']) = Inr files1
                 \<and> getAllFiles (disk (initial twoProjects))
                     (workspaceRoot @ [d, ''.cursor'', ''rules'']) = Inr files0
                 \<and> set files1 \<subseteq> set files0)"
    using a0 b0 fa0 fb0 fa1 fb1 by (simp add: workspaceRoot_def)
  have resolve: "\<forall>d \<in> set [''projA'', ''projB'']. \<forall>files1.
        getAllFiles (disk (afterRun twoProjects))
          (workspaceRoot @ [d, ''.cursor'', ''rules'']) = Inr files1
        \<longrightarrow> (\<forall>f \<in> set files1.
              readlinkSync (disk (afterRun twoProjects))
                (path_join (workspaceRoot @ [''.cursor'', ''rules'', d])
                   (path_relative (workspaceRoot @ [d, ''.cursor'', ''rules'']) f)) = Inr f
              \<longrightarrow> existsSync (disk (afterRun twoProjects))
                    (path_join (workspaceRoot @ [''.cursor'', ''rules'', d])
                       (path_relative (workspaceRoot @ [d, ''.cursor'', ''rules'']) f)))"
    using fa1 fb1 ea eb by (auto simp: workspaceRoot_def)
  have rd: "readFileSync (disk (afterRun twoProjects)) ?settings = Inr eslintText"
    unfolding afterRun_def by code_simp
  have tr: "trim exampleRuntime eslintText \<noteq> []" by code_simp
  have pa: "JSON_parse exampleRuntime eslintText = Some eslintConfig" by code_simp
  have gp: "getProperty eslintConfig ''eslint.workingDirectories''
        = Inr (Some (JArray [JObject [(''mode'', JString ''auto'')]]))"
    by code_simp
  have rb: "True \<longrightarrow>
      (\<forall>content. readFileSync (disk (afterRun twoProjects)) ?settings = Inr content
          \<longrightarrow> trim exampleRuntime content \<noteq> []
              \<and> (\<exists>parsed v. JSON_parse exampleRuntime content = Some parsed
                    \<and> getProperty parsed ''eslint.workingDirectories'' = Inr v \<and> truthy v))"
    using rd tr pa gp by auto
  have c: "createdSymlinks (afterRun twoProjects) = 2"
    unfolding afterRun_def by code_simp
  from second_run_skips_every_file[OF first sync nofail projects rules resolve]
  obtain k u st2 where all:
    "synchronise False workspaceRoot (initial (disk (afterRun twoProjects)))
        = (Inr [''projA'', ''projB''],
           \<lparr>disk = disk (afterRun twoProjects), calls = [], totalRuleFiles = k,
            createdSymlinks = 0, skippedSymlinks = k, errorSymlinks = 0\<rparr>)
      \<and> run exampleRuntime False workspaceRoot (initial (disk (afterRun twoProjects)))
          = (Summary 2 u, st2)
      \<and> totalRuleFiles st2 = k \<and> createdSymlinks st2 = 0
      \<and> skippedSymlinks st2 = k \<and> errorSymlinks st2 = 0
      \<and> ((True \<longrightarrow>
            (\<forall>content. readFileSync (disk (afterRun twoProjects)) ?settings = Inr content
                \<longrightarrow> trim exampleRuntime content \<noteq> []
                    \<and> (\<exists>parsed v. JSON_parse exampleRuntime content = Some parsed
                          \<and> getProperty parsed ''eslint.workingDirectories'' = Inr v
                          \<and> truthy v)))
           \<longrightarrow> \<not> u \<and> disk st2 = disk (afterRun twoProjects))"
    by (elim exE) (rule that)
  note imp = all[THEN conjunct2, THEN conjunct2, THEN conjunct2, THEN conjunct2,
      THEN conjunct2, THEN conjunct2]
  from imp rb have "\<not> u \<and> disk st2 = disk (afterRun twoProjects)" by (rule mp)
  with all
  have "run exampleRuntime False workspaceRoot (initial (disk (afterRun twoProjects)))
                  = (Summary 2 False, st2)
          \<and> disk st2 = disk (afterRun twoProjects)
          \<and> totalRuleFiles st2 = k \<and> createdSymlinks st2 = 0
          \<and> skippedSymlinks st2 = k \<and> errorSymlinks st2 = 0"
    by simp
  then have two: "\<exists>k st2. run exampleRuntime False workspaceRoot (initial (disk (afterRun twoProjects)))
                  = (Summary 2 False, st2)
          \<and> disk st2 = disk (afterRun twoProjects)
          \<and> totalRuleFiles st2 = k \<and> createdSymlinks st2 = 0
          \<and> skippedSymlinks st2 = k \<and> errorSymlinks st2 = 0"
    by (intro exI)

  have first': "run exampleRuntime False workspaceRoot (initial settingsDirectory)
      = (Summary 1 False, afterRun settingsDirectory)"
    unfolding afterRun_def by code_simp
  have sync': "synchronise False workspaceRoot (initial settingsDirectory)
      = (Inr [''projA''], snd (synchronise False workspaceRoot (initial settingsDirectory)))"
    by code_simp
  have nofail': "errorSymlinks (afterRun settingsDirectory)
      = errorSymlinks (initial settingsDirectory)"
    unfolding afterRun_def by code_simp
  have projects': "projectDirs (disk (afterRun settingsDirectory)) workspaceRoot
      = Inr [''projA'']"
    unfolding afterRun_def by code_simp
  have a0': "existsAsDirectory (disk (initial settingsDirectory)) ?A = Inr True"
    by code_simp
  have fa0': "getAllFiles (disk (initial settingsDirectory)) ?A = Inr [?A @ [''x.mdc'']]"
    by code_simp
  have fa1': "getAllFiles (disk (afterRun settingsDirectory)) ?A = Inr [?A @ [''x.mdc'']]"
    unfolding afterRun_def by code_simp
  have ea': "existsSync (disk (afterRun settingsDirectory))
      (path_join [''ws'', ''.cursor'', ''rules'', ''projA'']
         (path_relative ?A (?A @ [''x.mdc''])))"
    unfolding afterRun_def by code_simp
  have rules': "\<forall>d \<in> set [''projA''].
        existsAsDirectory (disk (afterRun settingsDirectory))
          (workspaceRoot @ [d, ''.cursor'', ''rules'']) = Inr True
        \<longrightarrow> existsAsDirectory (disk (initial settingsDirectory))
              (workspaceRoot @ [d, ''.cursor'', ''rules'']) = Inr True
           \<and> (\<exists>files1 files0.
                 getAllFiles (disk (afterRun settingsDirectory))
                   (workspaceRoot @ [d, ''.cursor'', ''rules'']) = Inr files1
                 \<and> getAllFiles (disk (initial settingsDirectory))
                     (workspaceRoot @ [d, ''.cursor'', ''rules'']) = Inr files0
                 \<and> set files1 \<subseteq> set files0)"
    using a0' fa0' fa1' by (simp add: workspaceRoot_def)
  have resolve': "\<forall>d \<in> set [''projA'']. \<forall>files1.
        getAllFiles (disk (afterRun settingsDirectory))
          (workspaceRoot @ [d, ''.cursor'', ''rules'']) = Inr files1
        \<longrightarrow> (\<forall>f \<in> set files1.
              readlinkSync (disk (afterRun settingsDirectory))
                (path_join (workspaceRoot @ [''.cursor'', ''rules'', d])
                   (path_relative (workspaceRoot @ [d, ''.cursor'', ''rules'']) f)) = Inr f
              \<longrightarrow> existsSync (disk (afterRun settingsDirectory))
                    (path_join (workspaceRoot @ [''.cursor'', ''rules'', d])
                       (path_relative (workspaceRoot @ [d, ''.cursor'', ''rules'']) f)))"
    using fa1' ea' by (auto simp: workspaceRoot_def)
  have rd': "readFileSync (disk (afterRun settingsDirectory))
      [''ws'', ''.vscode'', ''settings.json''] = Inl EISDIR"
    unfolding afterRun_def by code_simp
  from second_run_skips_every_file[OF first' sync' nofail' projects' rules' resolve']
  obtain k' u' st2' where all':
    "synchronise False workspaceRoot (initial (disk (afterRun settingsDirectory)))
        = (Inr [''projA''],
           \<lparr>disk = disk (afterRun settingsDirectory), calls = [], totalRuleFiles = k',
            createdSymlinks = 0, skippedSymlinks = k', errorSymlinks = 0\<rparr>)
      \<and> run exampleRuntime False workspaceRoot (initial (disk (afterRun settingsDirectory)))
          = (Summary 1 u', st2')
      \<and> totalRuleFiles st2' = k' \<and> createdSymlinks st2' = 0
      \<and> skippedSymlinks st2' = k' \<and> errorSymlinks st2' = 0
      \<and> ((False \<longrightarrow>
            (\<forall>content. readFileSync (disk (afterRun settingsDirectory)) ?settings = Inr content
                \<longrightarrow> trim exampleRuntime content \<noteq> []
                    \<and> (\<exists>parsed v. JSON_parse exampleRuntime content = Some parsed
                          \<and> getProperty parsed ''eslint.workingDirectories'' = Inr v
                          \<and> truthy v)))
           \<longrightarrow> \<not> u' \<and> disk st2' = disk (afterRun settingsDirectory))"
    by (elim exE) (rule that)
  note imp' = all'[THEN conjunct2, THEN conjunct2, THEN conjunct2, THEN conjunct2,
      THEN conjunct2, THEN conjunct2]
  have "\<not> u' \<and> disk st2' = disk (afterRun settingsDirectory)"
    by (rule mp[OF imp']) simp
  with all'
  have "run exampleRuntime False workspaceRoot (initial (disk (afterRun settingsDirectory)))
                  = (Summary 1 False, st2')
          \<and> disk st2' = disk (afterRun settingsDirectory)
          \<and> totalRuleFiles st2' = k' \<and> createdSymlinks st2' = 0
          \<and> skippedSymlinks st2' = k' \<and> errorSymlinks st2' = 0"
    by simp
  then have dir: "\<exists>k st2. run exampleRuntime False workspaceRoot
                    (initial (disk (afterRun settingsDirectory)))
                  = (Summary 1 False, st2)
          \<and> disk st2 = disk (afterRun settingsDirectory)
          \<and> totalRuleFiles st2 = k \<and> createdSymlinks st2 = 0
          \<and> skippedSymlinks st2 = k \<and> errorSymlinks st2 = 0"
    by (intro exI)
  from c two rd' dir show ?thesis by (intro conjI)
qed

section \<open>A run without \<^verbatim>\<open>--force\<close> removes nothing\<close>

text \<open>
  A write changes the content of one file, the one its path resolves to, and no other.
\<close>

lemma get_put_other:
  assumes "get fs p = Some (File r w c)" and "p \<noteq> q" and "get fs q = Some (File r' w' c')"
  shows "get (put q new fs) p = Some (File r w c)"
proof -
  have ns: "\<not> strict_prefix q p"
    using assms(1,3) by (auto elim: get_strict_prefix)
  from assms(2) have "prefix p q \<longrightarrow> drop (length p) q \<noteq> []"
    by (auto simp: prefix_def)
  with get_put[OF assms(1) ns, of new] show ?thesis by auto
qed

lemma fs_writeFile_frame:
  assumes "fs_writeFile fs p data = (res, fs')"
  shows "fs' = fs
       \<or> (\<exists>rp. realpath fs' p = Inr rp
             \<and> (\<forall>q r w c. q \<noteq> rp \<longrightarrow> get fs q = Some (File r w c)
                    \<longrightarrow> get fs' q = Some (File r w c)))"
proof (cases "fs' = fs")
  case True
  then show ?thesis ..
next
  case False
  with assms obtain rp where n: "namei SYMLOOP_MAX True fs [] p = Inr rp"
    by (auto simp: fs_writeFile_def split: sum.splits)
  show ?thesis
  proof (cases "get fs rp")
    case None
    with assms False n have fs': "fs' = put rp (File True True data) fs"
      and "\<exists>r w es. get fs (butlast rp) = Some (Dir r w es)"
      by (auto simp: fs_writeFile_def split: option.splits node.splits if_splits)
    then obtain r w es where par: "get fs (butlast rp) = Some (Dir r w es)" by blast
    from None have "rp \<noteq> []" by (cases rp) auto
    then have g': "get fs' rp = Some (File True True data)"
      unfolding fs' using par by (rule get_put_new)
    from None have ek: "entries_kept fs fs'" and fk: "files_kept fs fs'"
      unfolding fs' by (rule kept_put_fresh)+
    from n ek g' have "realpath fs' p = Inr rp"
      unfolding realpath_def by (rule namei_creat_mono) simp
    with fk show ?thesis by (auto simp: files_kept_def)
  next
    case (Some x)
    with assms False n obtain r w c where x: "x = File r w c"
      and fs': "fs' = put rp (File r w data) fs"
      by (auto simp: fs_writeFile_def split: option.splits node.splits if_splits)
    from Some x have g: "get fs rp = Some (File r w c)" by simp
    then have g': "get fs' rp = Some (File r w data)"
      unfolding fs' by (rule get_put_self)
    from g have ek: "entries_kept fs fs'"
      unfolding fs' by (rule entries_kept_put_file)
    from n ek g' have "realpath fs' p = Inr rp"
      unfolding realpath_def by (rule namei_creat_mono) simp
    moreover have "get fs' q = Some (File r0 w0 c0)"
      if "q \<noteq> rp" and "get fs q = Some (File r0 w0 c0)" for q r0 w0 c0
      unfolding fs' using that(2,1) g by (rule get_put_other)
    ultimately show ?thesis by blast
  qed
qed

lemma createVSCodeSettings_frame:
  assumes "createVSCodeSettings js rootDir st = (res, st')"
    and "get (disk st) q = Some (File r w c)"
    and "realpath (disk st') (rootDir @ [''.vscode'', ''settings.json'']) \<noteq> Inr q"
  shows "get (disk st') q = Some (File r w c)"
  using assms(1)
proof (cases rule: createVSCodeSettings_cases)
  case (unwritten e)
  then have "kept st st'" by (rule ensureDir_kept)
  with assms(2) show ?thesis by (auto simp: kept_def files_kept_def)
next
  case (written st1 data e)
  from written(1) have "kept st st1" by (rule ensureDir_kept)
  with assms(2) have g1: "get (disk st1) q = Some (File r w c)"
    by (auto simp: kept_def files_kept_def)
  from written(2) have "fs_writeFile (disk st1) (rootDir @ [''.vscode'', ''settings.json'']) data
      = (e, disk st')"
    by (auto simp: writeFileSync_def split: prod.splits)
  from fs_writeFile_frame[OF this] g1 assms(3) show ?thesis by auto
qed

lemma run_frame:
  assumes "run js False rootDir st = (out, st')"
    and "get (disk st) q = Some (File r w c)"
    and "realpath (disk st') (rootDir @ [''.vscode'', ''settings.json'']) \<noteq> Inr q"
  shows "get (disk st') q = Some (File r w c)"
proof -
  obtain r1 st1 where s: "synchronise False rootDir st = (r1, st1)" by fastforce
  then have "kept st st1" by (rule synchronise_kept)
  with assms(2) have g1: "get (disk st1) q = Some (File r w c)"
    by (auto simp: kept_def files_kept_def)
  show ?thesis
  proof (cases r1)
    case (Inl e)
    with assms(1) s have "st' = st1" by (simp add: run_def)
    with g1 show ?thesis by simp
  next
    case (Inr dirs)
    with assms(1) s obtain res where "createVSCodeSettings js rootDir st1 = (res, st')"
      by (auto simp: run_def split: sum.splits prod.splits)
    then show ?thesis using g1 assms(3) by (rule createVSCodeSettings_frame)
  qed
qed

text \<open>
  \<^verbatim>\<open>.vscode/settings.json\<close> is a link to a file under \<^verbatim>\<open>/ws/.cursor/rules\<close> that does not
  parse.
\<close>

definition linkedSettings :: node where
  "linkedSettings = Dir True True [(''ws'', Dir True True
     [(''projA'', Dir True True [(''.cursor'', Dir True True [(''rules'', Dir True True
          [(''x.mdc'', File True True ''a'')])])]),
      (''.cursor'', Dir True True [(''rules'', Dir True True
          [(''projA'', Dir True True [(''notes.json'', File True True ''{not json'')])])]),
      (''.vscode'', Dir True True
          [(''settings.json'',
            Symlink [''ws'', ''.cursor'', ''rules'', ''projA'', ''notes.json''])])])]"

text \<open>
  C7, as stated, fails on \<open>linkedSettings\<close>: the run without \<^verbatim>\<open>--force\<close> ends normally,
  and \<^verbatim>\<open>writeFileSync\<close> of line 242 follows the link and replaces the content of
  \<^verbatim>\<open>/ws/.cursor/rules/projA/notes.json\<close>, an entry under \<^verbatim>\<open><root>/.cursor/rules\<close> that
  existed before the run.
\<close>

theorem settings_link_rewrites_mirror_file:
  "readFileSync linkedSettings [''ws'', ''.cursor'', ''rules'', ''projA'', ''notes.json'']
     = Inr ''{not json''
   \<and> fst (run exampleRuntime False workspaceRoot (initial linkedSettings)) = Summary 1 True
   \<and> errorSymlinks (snd (run exampleRuntime False workspaceRoot (initial linkedSettings))) = 0
   \<and> readFileSync (disk (snd (run exampleRuntime False workspaceRoot (initial linkedSettings))))
        [''ws'', ''.cursor'', ''rules'', ''projA'', ''notes.json'']
     = Inr eslintText"
  by code_simp

definition staleMirror :: node where
  "staleMirror = Dir True True [(''ws'', Dir True True
     [(''projA'', Dir True True [(''.cursor'', Dir True True [(''rules'', Dir True True
          [(''x.mdc'', File True True ''a'')])])]),
      (''.cursor'', Dir True True [(''rules'', Dir True True
          [(''old'', Dir True True
             [(''stale.mdc'', Symlink [''ws'', ''old'', ''.cursor'', ''rules'', ''stale.mdc''])]),
           (''projA'', Dir True True [(''notes.txt'', File True True ''n'')])])])])]"

text \<open>
  C7, amended. A run without \<^verbatim>\<open>--force\<close>, whether it ends with its summary or with an
  uncaught exception, removes no entry: every path that \<^verbatim>\<open>lstat\<close> finds before the run (in
  particular every path under \<^verbatim>\<open><root>/.cursor/rules\<close>, whether or not a rule file
  corresponds to it) it finds after the run with the same type, link target and
  permissions, and so does every place of the tree. The synchronisation changes the content
  of no file. After the whole run every file has the content it had, except the one file
  that \<^verbatim>\<open><root>/.vscode/settings.json\<close> resolves to, which the settings step may rewrite
  wherever it lies.
\<close>

theorem run_without_force_keeps_entries:
  assumes "run js False rootDir st = (out, st')"
    and "synchronise False rootDir st = (r, st1)"
    and "settingsPath = rootDir @ [''.vscode'', ''settings.json'']"
  shows "(\<forall>p s. lstatSync (disk st) p = Inr s \<longrightarrow> lstatSync (disk st') p = Inr s)
       \<and> (\<forall>p nd. get (disk st) p = Some nd
            \<longrightarrow> (\<exists>nd'. get (disk st') p = Some nd' \<and> shape_of nd' = shape_of nd))
       \<and> (\<forall>p c. readFileSync (disk st) p = Inr c \<longrightarrow> readFileSync (disk st1) p = Inr c)
       \<and> (\<forall>p fr fw c. get (disk st) p = Some (File fr fw c)
            \<longrightarrow> realpath (disk st') settingsPath \<noteq> Inr p
            \<longrightarrow> get (disk st') p = Some (File fr fw c))
       \<and> (\<forall>p c. readFileSync (disk st) p = Inr c
            \<longrightarrow> realpath (disk st') p \<noteq> realpath (disk st') settingsPath
            \<longrightarrow> readFileSync (disk st') p = Inr c)"
proof -
  from assms(1) have e: "entries_kept (disk st) (disk st')" by (rule run_kept)
  from assms(2) have k: "kept st st1" by (rule synchronise_kept)
  from e have 1: "\<forall>p s. lstatSync (disk st) p = Inr s \<longrightarrow> lstatSync (disk st') p = Inr s"
    by (blast intro: lstatSync_mono)
  from e have 2: "\<forall>p nd. get (disk st) p = Some nd
      \<longrightarrow> (\<exists>nd'. get (disk st') p = Some nd' \<and> shape_of nd' = shape_of nd)"
    by (simp add: entries_kept_def)
  from k
  have 3: "\<forall>p c. readFileSync (disk st) p = Inr c \<longrightarrow> readFileSync (disk st1) p = Inr c"
    unfolding kept_def by (blast intro: readFileSync_mono)
  have 4: "\<forall>p fr fw c. get (disk st) p = Some (File fr fw c)
            \<longrightarrow> realpath (disk st') settingsPath \<noteq> Inr p
            \<longrightarrow> get (disk st') p = Some (File fr fw c)"
    unfolding assms(3) using run_frame[OF assms(1)] by blast
  have 5: "readFileSync (disk st') p = Inr c"
    if rd: "readFileSync (disk st) p = Inr c"
      and ne: "realpath (disk st') p \<noteq> realpath (disk st') settingsPath" for p c
  proof -
    from rd obtain rp w where rp: "realpath (disk st) p = Inr rp"
      and g: "get (disk st) rp = Some (File True w c)"
      by (auto simp: readFileSync_def split: sum.splits option.splits node.splits if_splits)
    from e rp have rp': "realpath (disk st') p = Inr rp" by (rule realpath_mono)
    with ne have "realpath (disk st') settingsPath \<noteq> Inr rp" by simp
    with 4 g have "get (disk st') rp = Some (File True w c)" by blast
    with rp' show ?thesis by (simp add: readFileSync_def)
  qed
  from 1 2 3 4 5 show ?thesis by blast
qed

theorem run_without_force_keeps_entries_witness:
  "lstatSync (disk (snd (run exampleRuntime False workspaceRoot (initial staleMirror))))
      [''ws'', ''.cursor'', ''rules'', ''old'', ''stale.mdc'']
     = Inr (SLink [''ws'', ''old'', ''.cursor'', ''rules'', ''stale.mdc''])
   \<and> readFileSync
        (disk (snd (synchronise False workspaceRoot (initial staleMirror))))
        [''ws'', ''.cursor'', ''rules'', ''projA'', ''notes.txt'']
     = Inr ''n''
   \<and> readFileSync
        (disk (snd (run exampleRuntime False workspaceRoot (initial staleMirror))))
        [''ws'', ''.cursor'', ''rules'', ''projA'', ''notes.txt'']
     = Inr ''n''"
proof -
  let ?st' = "snd (run exampleRuntime False workspaceRoot (initial staleMirror))"
  have r: "run exampleRuntime False workspaceRoot (initial staleMirror)
      = (fst (run exampleRuntime False workspaceRoot (initial staleMirror)), ?st')"
    by simp
  have s: "synchronise False workspaceRoot (initial staleMirror)
      = (fst (synchronise False workspaceRoot (initial staleMirror)),
         snd (synchronise False workspaceRoot (initial staleMirror)))"
    by simp
  have l: "lstatSync (disk (initial staleMirror))
      [''ws'', ''.cursor'', ''rules'', ''old'', ''stale.mdc'']
     = Inr (SLink [''ws'', ''old'', ''.cursor'', ''rules'', ''stale.mdc''])"
    by code_simp
  have f: "readFileSync (disk (initial staleMirror))
      [''ws'', ''.cursor'', ''rules'', ''projA'', ''notes.txt''] = Inr ''n''"
    by code_simp
  have n: "realpath (disk ?st') [''ws'', ''.cursor'', ''rules'', ''projA'', ''notes.txt'']
      \<noteq> realpath (disk ?st') (workspaceRoot @ [''.vscode'', ''settings.json''])"
    by code_simp
  from run_without_force_keeps_entries[OF r s refl] l f n show ?thesis by blast
qed

end
